(* ===== verification/Prelude.thy ===== *)
theory Prelude
  imports Main "HOL-Library.Word"
begin

text \<open>
  Shared vocabulary of the RogOS kernel-core model: the machine types of the C code
  (\<open>uint8_t\<close>, \<open>uint16_t\<close>, \<open>uint32_t\<close> as words), the outcome of a failed
  \<open>ASSERT\<close> or \<open>PANIC\<close> (\<open>src/kernel/debug.h\<close>, which halt the machine) as a value
  of the type \<open>fatal\<close>, the unsigned 32-bit subtraction of the C code, and the list
  and word lemmas the component theories share.
\<close>

unbundle bit_operations_syntax

type_synonym u8 = "8 word"
type_synonym u16 = "16 word"
type_synonym u32 = "32 word"

text \<open>
  \<open>ASSERT(c)\<close> expands to \<open>PANIC(#c)\<close> and \<open>PANIC\<close> spins forever with
  interrupts off (\<open>panic_spin\<close>): the machine stops. The model returns the failed
  condition (or the panic message) as \<open>Inl\<close> of a sum; an access through an absent
  page-directory entry is a page fault, which the kernel's default handler also never
  returns from.
\<close>

datatype fatal =
    ASSERT_failed string
  | PANIC_called string
  | Page_fault u32

text \<open>Unsigned 32-bit subtraction \<open>a - b\<close> of two \<open>uint32_t\<close> values.\<close>

definition u32_sub :: "nat \<Rightarrow> nat \<Rightarrow> nat" where
  "u32_sub a b = nat ((int a - int b) mod 2 ^ 32)"

named_theorems kernel_simps "facts that evaluate the kernel model on concrete states"

lemma u32_sub_le [simp]: "b \<le> a \<Longrightarrow> a < 2 ^ 32 \<Longrightarrow> u32_sub a b = a - b"
  by (simp add: u32_sub_def)

lemma u32_sub_0_1 [simp]: "u32_sub 0 1 = 2 ^ 32 - 1" "u32_sub 0 (Suc 0) = 2 ^ 32 - 1"
  by (simp_all add: u32_sub_def)

subsection \<open>Searching lists\<close>

lemma find_append:
  "find P (xs @ ys) = (case find P xs of None \<Rightarrow> find P ys | Some x \<Rightarrow> Some x)"
  by (induction xs) auto

lemma find_map: "find P (map f xs) = map_option f (find (P \<circ> f) xs)"
  by (induction xs) auto

lemma find_upt_from:
  assumes "\<forall>j<a. \<not> P j"
  shows "find P [a..<m] = find P [0..<m]"
proof (cases "a \<le> m")
  case True
  then have "[0..<m] = [0..<a] @ [a..<m]"
    by (metis le0 upt_add_eq_append add_0 le_add_diff_inverse)
  moreover have "find P [0..<a] = None"
    using assms by (simp add: find_None_iff)
  ultimately show ?thesis by (simp add: find_append)
next
  case False
  with assms have "find P [0..<m] = None"
    by (simp add: find_None_iff)
  with False show ?thesis by simp
qed

lemma find_upt_Cons: "P a \<Longrightarrow> a < m \<Longrightarrow> find P [a..<m] = Some a"
  by (simp add: upt_conv_Cons)

subsection \<open>Unsigned 32-bit arithmetic\<close>

lemma unat_u32_less [simp]: "unat (w :: u32) < 4294967296"
proof -
  have "unat w < 2 ^ LENGTH(32)" by (rule unsigned_less)
  then show ?thesis by simp
qed

lemma u32_incr_measure: "(i :: u32) < b \<Longrightarrow> unat b - unat (i + 1) < unat b - unat i"
proof -
  assume "i < b"
  then have lt: "unat i < unat b" by (simp add: word_less_nat_alt)
  then have "unat i + 1 < 4294967296" using unat_u32_less [of b] by linarith
  then have "unat (i + 1) = unat i + 1" by (simp add: unat_word_ariths)
  then show ?thesis using lt by linarith
qed

lemma unat_of_nat_u32 [simp]: "n < 2 ^ 32 \<Longrightarrow> unat (word_of_nat n :: u32) = n"
  by (simp add: unat_of_nat)

lemma word_of_int_int_u32 [simp]: "(word_of_int (int n) :: u32) = word_of_nat n"
  by simp

lemma unat_add_of_nat_u32:
  assumes "unat a + n < 2 ^ 32"
  shows "unat (a + word_of_nat n :: u32) = unat a + n"
proof -
  have "unat (word_of_nat n :: u32) = n" using assms by simp
  with assms show ?thesis using unat_add_lem [of a "word_of_nat n"] by simp
qed

lemma unat_of_nat_page [simp]:
  "i * 4096 < 2 ^ 32 \<Longrightarrow> unat (word_of_nat i * 4096 :: u32) = i * 4096"
  using unat_of_nat_u32 [of "i * 4096"] by simp

lemma unat_of_nat_page_div [simp]:
  "i * 4096 < 2 ^ 32 \<Longrightarrow> unat ((word_of_nat i * 4096 :: u32) div 4096) = i"
  by (simp only: unat_div unat_of_nat_page) simp

lemma unat_ucast_u32_u16 [simp]: "unat (ucast (w :: u32) :: u16) = unat w mod 65536"
  by (simp add: unsigned_ucast_eq take_bit_eq_mod)

lemma unat_ucast_u16_u32 [simp]: "unat (ucast (w :: u16) :: u32) = unat w"
  by (simp add: unsigned_ucast_eq take_bit_nat_eq_self_iff less_trans [OF unsigned_less])

lemma unat_u16_sub_half [simp]: "unat ((w :: u16) - w div 2) = unat w - unat w div 2"
  by (subst unat_sub) (simp_all add: unat_div word_le_nat_alt)

subsection \<open>Single-bit masks on words\<close>

text \<open>
  The C code tests and changes one bit of a byte or word with the mask
  \<open>1 << k\<close>, i.e. \<open>push_bit k 1\<close>, which the simplifier writes \<open>2 ^ k\<close>.
  These lemmas turn mask expressions into \<open>bit\<close>, on which the simplifier reasons
  bit by bit.
\<close>

lemma and_exp_ne0_iff_bit [simp]:
  "(w AND 2 ^ k \<noteq> 0) = bit (w :: 'a::len word) k"
  by (simp add: and_exp_eq_0_iff_not_bit)

lemma exp_and_ne0_iff_bit [simp]:
  "(2 ^ k AND w \<noteq> 0) = bit (w :: 'a::len word) k"
  by (metis and.commute and_exp_ne0_iff_bit)

lemma bit_or_exp [simp]:
  "bit (w OR 2 ^ k) j = (bit w j \<or> (j = k \<and> k < LENGTH('a)))"
  for w :: "'a::len word"
  by (auto simp add: bit_or_iff bit_exp_iff)

lemma bit_and_not_exp [simp]:
  "bit (w AND NOT (2 ^ k)) j = (bit w j \<and> j \<noteq> k)"
  for w :: "'a::len word"
  by (auto simp add: bit_and_iff bit_not_iff bit_exp_iff dest: bit_imp_le_length)

lemma or_exp_and_not_exp:
  "\<not> bit w k \<Longrightarrow> (w OR 2 ^ k) AND NOT (2 ^ k) = (w :: 'a::len word)"
  by (rule bit_eqI) auto

lemma byte_all_ones_iff: "(w = (0xff :: u8)) = (\<forall>k<8. bit w k)"
proof -
  have "(0xff :: u8) = - 1" by simp
  then show ?thesis
    by (auto simp add: bit_eq_iff dest: bit_imp_le_length)
qed

end
