(* ===== verification/Sched.thy ===== *)
theory Sched
  imports Prelude
begin

text \<open>
  Task control blocks and the scheduler of \<open>src/thread/thread.c\<close>, the interrupt-flag
  functions of \<open>src/kernel/interrupt.c\<close> and the timer handler of
  \<open>src/device/timer.c\<close>. A task is named by the address of its control block
  (\<open>struct task_struct*\<close>, the page that \<open>get_kernel_pages\<close> returns); the scheduler
  state holds the control blocks, the ready queue and the all-tasks queue (lists of task
  addresses, head first), the running task (\<open>running_thread()\<close>), the idle and main
  tasks, the interrupt flag, the \<open>static next_pid\<close> of \<open>allocate_pid\<close> and the global
  tick counter. \<open>switch_to\<close> (assembly, outside \<open>src/\<close>) is the change of the running
  task.
\<close>

unbundle bit_operations_syntax

section \<open>Tasks and the scheduler state\<close>

type_synonym tid = u32

datatype task_status = TASK_RUNNING | TASK_READY | TASK_BLOCKED | TASK_WAITING | TASK_HANGING | TASK_DIED

datatype intr_status = INTR_OFF | INTR_ON

text \<open>The fields of \<open>struct task_struct\<close> the modelled code reads or writes.\<close>

record task =
  self_kstack :: u32
  parent_pid :: "16 word"
  pid :: "16 word"
  status :: task_status
  name :: string
  priority :: u8
  ticks :: u8
  elapsed_ticks :: u32
  fd_table :: "32 word list"
  pgdir :: "u32 option"
  cwd_inode_nr :: u32
  stack_magic :: u32

record sched =
  tasks :: "tid \<Rightarrow> task"
  ready :: "tid list"
  all_tasks :: "tid list"
  cur :: tid
  idle_thread :: tid
  main_thread :: tid
  intr :: intr_status
  next_pid :: "16 word"
  timer_ticks :: u32

text \<open>
  The intrusive doubly linked lists of \<open>lib/kernel/list.c\<close> (not in \<open>src/\<close>; modelled from
  the specification: a FIFO queue with append at the tail, push and pop at the head, and a
  membership test).
\<close>

definition list_append :: "tid list \<Rightarrow> tid \<Rightarrow> tid list" where
  "list_append l e = l @ [e]"

definition list_push :: "tid list \<Rightarrow> tid \<Rightarrow> tid list" where
  "list_push l e = e # l"

definition elem_find :: "tid list \<Rightarrow> tid \<Rightarrow> bool" where
  "elem_find l e \<longleftrightarrow> e \<in> set l"

definition list_empty :: "tid list \<Rightarrow> bool" where
  "list_empty l \<longleftrightarrow> l = []"

text \<open>Interrupt flag (\<open>EFLAGS.IF\<close>) control.\<close>

definition intr_get_status :: "sched \<Rightarrow> intr_status" where
  "intr_get_status s = intr s"

definition intr_enable :: "sched \<Rightarrow> intr_status \<times> sched" where
  "intr_enable s = (if intr_get_status s = INTR_ON then (INTR_ON, s) else (INTR_OFF, s\<lparr>intr := INTR_ON\<rparr>))"

definition intr_disable :: "sched \<Rightarrow> intr_status \<times> sched" where
  "intr_disable s = (if intr_get_status s = INTR_ON then (INTR_ON, s\<lparr>intr := INTR_OFF\<rparr>) else (INTR_OFF, s))"

definition intr_set_status :: "intr_status \<Rightarrow> sched \<Rightarrow> intr_status \<times> sched" where
  "intr_set_status st s = (if st = INTR_ON then intr_enable s else intr_disable s)"

definition upd_task :: "tid \<Rightarrow> (task \<Rightarrow> task) \<Rightarrow> sched \<Rightarrow> sched" where
  "upd_task t f s = s\<lparr>tasks := (tasks s)(t := f (tasks s t))\<rparr>"

definition allocate_pid :: "sched \<Rightarrow> 16 word \<times> sched" where
  "allocate_pid s = (next_pid s + 1, s\<lparr>next_pid := next_pid s + 1\<rparr>)"

definition blocked_status :: "task_status \<Rightarrow> bool" where
  "blocked_status st \<longleftrightarrow> st = TASK_BLOCKED \<or> st = TASK_WAITING \<or> st = TASK_HANGING"

text \<open>
  \<open>init_thread\<close>: the control block is zeroed and filled in; \<open>prio\<close> (an \<open>int\<close>) is
  stored in the \<open>uint8_t\<close> fields \<open>priority\<close> and \<open>ticks\<close>.
\<close>

definition init_thread :: "tid \<Rightarrow> string \<Rightarrow> int \<Rightarrow> sched \<Rightarrow> sched" where
  "init_thread pthread nm prio s =
     (let (p, s1) = allocate_pid s in
      s1\<lparr>tasks := (tasks s1)(pthread :=
        \<lparr>self_kstack = pthread + 0x1000, parent_pid = -1, pid = p,
         status = (if pthread = main_thread s1 then TASK_RUNNING else TASK_READY),
         name = nm, priority = word_of_int prio, ticks = word_of_int prio, elapsed_ticks = 0,
         fd_table = [0, 1, 2, -1, -1, -1, -1, -1], pgdir = None, cwd_inode_nr = 0,
         stack_magic = 0x19870916\<rparr>)\<rparr>)"

text \<open>
  \<open>thread_create\<close> reserves the interrupt stack (19 words) and the thread stack (8 words)
  below the top of the control block's page; the words it stores there (the entry
  \<open>kernel_thread\<close>, the function and its argument) are not part of this model.
\<close>

definition thread_create :: "tid \<Rightarrow> sched \<Rightarrow> sched" where
  "thread_create pthread s = upd_task pthread (\<lambda>t. t\<lparr>self_kstack := self_kstack t - 76 - 32\<rparr>) s"

definition thread_start_pcb :: "string \<Rightarrow> int \<Rightarrow> tid \<Rightarrow> sched \<Rightarrow> fatal + sched" where
  "thread_start_pcb nm prio thread s =
     (let s1 = thread_create thread (init_thread thread nm prio s) in
      if elem_find (ready s1) thread then Inl (ASSERT_failed ''!elem_find(&thread_ready_list, &thread->general_tag)'')
      else let s2 = s1\<lparr>ready := list_append (ready s1) thread\<rparr> in
      if elem_find (all_tasks s2) thread then Inl (ASSERT_failed ''!elem_find(&thread_all_list, &thread->all_list_tag)'')
      else Inr (s2\<lparr>all_tasks := list_append (all_tasks s2) thread\<rparr>))"

definition make_main_thread :: "sched \<Rightarrow> fatal + sched" where
  "make_main_thread s =
     (let s1 = s\<lparr>main_thread := cur s\<rparr>;
          s2 = init_thread (main_thread s1) ''main'' 31 s1 in
      if elem_find (all_tasks s2) (main_thread s2)
      then Inl (ASSERT_failed ''!elem_find(&thread_all_list, &main_thread->all_list_tag)'')
      else Inr (s2\<lparr>all_tasks := list_append (all_tasks s2) (main_thread s2)\<rparr>))"

definition thread_unblock :: "tid \<Rightarrow> sched \<Rightarrow> fatal + sched" where
  "thread_unblock pthread s =
     (let old_status = intr_get_status s in
      if \<not> blocked_status (status (tasks s pthread))
      then Inl (ASSERT_failed ''((pthread->status == TASK_BLOCKED) || (pthread->status == TASK_WAITING) || (pthread->status == TASK_HANGING))'')
      else if status (tasks s pthread) \<noteq> TASK_READY then
        (if elem_find (ready s) pthread then Inl (PANIC_called ''thread_unblock: blocked thread in ready_list'')
         else Inr (snd (intr_set_status old_status
                (upd_task pthread (\<lambda>t. t\<lparr>status := TASK_READY\<rparr>) (s\<lparr>ready := list_push (ready s) pthread\<rparr>)))))
      else Inr (snd (intr_set_status old_status s)))"

text \<open>
  \<open>schedule\<close>: a running task goes to the tail of the ready queue with a fresh time
  slice; if the queue is empty the idle task is woken; the head is popped and becomes the
  running task (\<open>switch_to\<close>). \<open>process_activate\<close> (page directory and TSS of the next
  task, in \<open>userprog/\<close>, outside \<open>src/\<close>) is not modelled.
\<close>

definition schedule :: "sched \<Rightarrow> fatal + sched" where
  "schedule s =
     (if intr_get_status s \<noteq> INTR_OFF then Inl (ASSERT_failed ''intr_get_status() == INTR_OFF'')
      else
        let c = cur s;
            s1 = (if status (tasks s c) = TASK_RUNNING then
                    (if elem_find (ready s) c then Inl (ASSERT_failed ''!elem_find(&thread_ready_list, &cur->general_tag)'')
                     else Inr (upd_task c (\<lambda>t. t\<lparr>ticks := priority t, status := TASK_READY\<rparr>)
                                 (s\<lparr>ready := list_append (ready s) c\<rparr>)))
                  else Inr s)
        in case s1 of
             Inl e \<Rightarrow> Inl e
           | Inr s1 \<Rightarrow>
               (case (if list_empty (ready s1) then thread_unblock (idle_thread s1) s1 else Inr s1) of
                  Inl e \<Rightarrow> Inl e
                | Inr s2 \<Rightarrow>
                    if list_empty (ready s2) then Inl (ASSERT_failed ''!list_empty(&thread_ready_list)'')
                    else let next = hd (ready s2);
                             s3 = upd_task next (\<lambda>t. t\<lparr>status := TASK_RUNNING\<rparr>) (s2\<lparr>ready := tl (ready s2)\<rparr>)
                         in Inr (s3\<lparr>cur := next\<rparr>)))"

text \<open>
  \<open>thread_block\<close> and \<open>thread_yield\<close> end with \<open>intr_set_status(old_status)\<close>, which the
  blocked task executes when it is resumed; the model executes it at once on the state
  after the switch.
\<close>

definition thread_block :: "task_status \<Rightarrow> sched \<Rightarrow> fatal + sched" where
  "thread_block stat s =
     (if \<not> blocked_status stat
      then Inl (ASSERT_failed ''((stat == TASK_BLOCKED) || (stat == TASK_WAITING) || (stat == TASK_HANGING))'')
      else let (old_status, s1) = intr_disable s;
               s2 = upd_task (cur s1) (\<lambda>t. t\<lparr>status := stat\<rparr>) s1
           in case schedule s2 of Inl e \<Rightarrow> Inl e | Inr s3 \<Rightarrow> Inr (snd (intr_set_status old_status s3)))"

definition thread_yield :: "sched \<Rightarrow> fatal + sched" where
  "thread_yield s =
     (let c = cur s; (old_status, s1) = intr_disable s in
      if elem_find (ready s1) c then Inl (ASSERT_failed ''!elem_find(&thread_ready_list, &cur->general_tag)'')
      else let s2 = upd_task c (\<lambda>t. t\<lparr>status := TASK_READY\<rparr>) (s1\<lparr>ready := list_append (ready s1) c\<rparr>)
           in case schedule s2 of Inl e \<Rightarrow> Inl e | Inr s3 \<Rightarrow> Inr (snd (intr_set_status old_status s3)))"

definition intr_timer_handler :: "sched \<Rightarrow> fatal + sched" where
  "intr_timer_handler s =
     (let c = cur s in
      if stack_magic (tasks s c) \<noteq> 0x19870916 then Inl (ASSERT_failed ''cur_thread->stack_magic == 0x19870916'')
      else let s1 = upd_task c (\<lambda>t. t\<lparr>elapsed_ticks := elapsed_ticks t + 1\<rparr>) (s\<lparr>timer_ticks := timer_ticks s + 1\<rparr>) in
        if ticks (tasks s1 c) = 0 then schedule s1
        else Inr (upd_task c (\<lambda>t. t\<lparr>ticks := ticks t - 1\<rparr>) s1))"

text \<open>
  The timer interrupt as the processor delivers it: the interrupt gate clears \<open>IF\<close>, the
  handler runs, \<open>iret\<close> restores the interrupted task's flag, which was set (interrupts are
  only delivered when \<open>IF\<close> is set).
\<close>

definition timer_irq :: "sched \<Rightarrow> fatal + sched" where
  "timer_irq s =
     (case intr_timer_handler (s\<lparr>intr := INTR_OFF\<rparr>) of Inl e \<Rightarrow> Inl e | Inr s' \<Rightarrow> Inr (s'\<lparr>intr := INTR_ON\<rparr>))"


text \<open>
  Well-formed scheduler states. Every task of \<open>thread_all_list\<close> is ready exactly when it
  is in the ready queue, no task but the current one is running, and the stack guards are
  intact; the queues are duplicate-free and the ready queue, the running task, the idle task
  and the main task are all known tasks. \<open>sched_pre\<close> is the state \<open>schedule\<close> may be
  entered in (the current task may have just blocked or queued itself); \<open>sched_inv\<close> adds
  that the current task is running.
\<close>

definition sched_pre :: "sched \<Rightarrow> bool" where
  "sched_pre s \<longleftrightarrow> distinct (ready s) \<and> distinct (all_tasks s) \<and>
     list_all (\<lambda>t. t \<in> set (all_tasks s)) (ready s) \<and> cur s \<in> set (all_tasks s) \<and>
     idle_thread s \<in> set (all_tasks s) \<and> main_thread s \<in> set (all_tasks s) \<and>
     status (tasks s (idle_thread s)) \<noteq> TASK_DIED \<and> status (tasks s (cur s)) \<noteq> TASK_DIED \<and>
     list_all (\<lambda>t. (status (tasks s t) = TASK_READY) = (t \<in> set (ready s)) \<and>
                   (if status (tasks s t) = TASK_RUNNING then t = cur s else True) \<and>
                   stack_magic (tasks s t) = 0x19870916) (all_tasks s)"

definition sched_inv :: "sched \<Rightarrow> bool" where
  "sched_inv s \<longleftrightarrow> sched_pre s \<and> status (tasks s (cur s)) = TASK_RUNNING"

text \<open>
  \<open>thread_init\<close>: the two queues are emptied (\<open>list_init\<close>), the first user process is
  created (\<open>process_execute(init, "init")\<close>, in \<open>userprog/\<close> outside \<open>src/\<close>: a parameter
  here), \<open>main\<close> becomes a task and the idle task is started on the page \<open>idle_pcb\<close>
  (the page \<open>thread_start\<close> obtains from \<open>get_kernel_pages(1)\<close>). \<open>lock_init(&pid_lock)\<close>
  touches no modelled state: \<open>allocate_pid\<close> runs atomically here.
\<close>

definition thread_init :: "(sched \<Rightarrow> fatal + sched) \<Rightarrow> tid \<Rightarrow> sched \<Rightarrow> fatal + sched" where
  "thread_init process_execute_init idle_pcb s =
     (case process_execute_init (s\<lparr>ready := [], all_tasks := []\<rparr>) of
        Inl e \<Rightarrow> Inl e
      | Inr s1 \<Rightarrow>
          (case make_main_thread s1 of
             Inl e \<Rightarrow> Inl e
           | Inr s2 \<Rightarrow>
               (case thread_start_pcb ''idle'' 10 idle_pcb s2 of
                  Inl e \<Rightarrow> Inl e
                | Inr s3 \<Rightarrow> Inr (s3\<lparr>idle_thread := idle_pcb\<rparr>))))"

section \<open>The scheduler as a transition system\<close>

text \<open>
  The events that change the scheduler state: a timer interrupt (delivered only while
  \<open>IF\<close> is set), \<open>thread_yield\<close>, \<open>thread_block\<close>, \<open>thread_unblock\<close> of a known task
  (its callers, \<open>sema_up\<close> and \<open>schedule\<close>, unblock tasks of \<open>thread_all_list\<close>) and
  \<open>thread_start\<close> on a fresh page. A step that takes a fatal path stops the machine and
  has no successor.
\<close>

inductive sched_step :: "sched \<Rightarrow> sched \<Rightarrow> bool" where
  tick: "intr s = INTR_ON \<Longrightarrow> timer_irq s = Inr s' \<Longrightarrow> sched_step s s'"
| yield: "thread_yield s = Inr s' \<Longrightarrow> sched_step s s'"
| block: "thread_block st s = Inr s' \<Longrightarrow> sched_step s s'"
| unblock: "t \<in> set (all_tasks s) \<Longrightarrow> thread_unblock t s = Inr s' \<Longrightarrow> sched_step s s'"
| start: "t \<notin> set (all_tasks s) \<Longrightarrow> thread_start_pcb nm prio t s = Inr s' \<Longrightarrow> sched_step s s'"

text \<open>\<open>n\<close> timer interrupts and nothing else.\<close>

primrec timer_run :: "nat \<Rightarrow> sched \<Rightarrow> fatal + sched" where
  "timer_run 0 s = Inr s"
| "timer_run (Suc n) s = (case timer_irq s of Inl e \<Rightarrow> Inl e | Inr s' \<Rightarrow> timer_run n s')"

text \<open>A state before \<open>thread_init\<close>: \<open>main\<close> runs on the page \<open>0xc009e000\<close> reserved by the loader.\<close>

definition ex_task0 :: task where
  "ex_task0 = \<lparr>self_kstack = 0, parent_pid = 0, pid = 0, status = TASK_RUNNING, name = [], priority = 0, ticks = 0,
               elapsed_ticks = 0, fd_table = [], pgdir = None, cwd_inode_nr = 0, stack_magic = 0\<rparr>"

definition ex_sched0 :: sched where
  "ex_sched0 = \<lparr>tasks = (\<lambda>_. ex_task0), ready = [], all_tasks = [], cur = 0xc009e000, idle_thread = 0,
                main_thread = 0, intr = INTR_OFF, next_pid = 0, timer_ticks = 0\<rparr>"

text \<open>
  The state after \<open>thread_init\<close> (no user process; the idle task on the page
  \<open>0xc0101000\<close>) and \<open>intr_enable()\<close> in \<open>main\<close>, and the state after \<open>main\<close> then
  blocks itself.
\<close>

definition ex_boot :: sched where
  "ex_boot = (case thread_init (\<lambda>s. Inr s) 0xc0101000 ex_sched0 of Inr s \<Rightarrow> s\<lparr>intr := INTR_ON\<rparr> | Inl _ \<Rightarrow> ex_sched0)"

definition ex_blocked :: sched where
  "ex_blocked = (case thread_block TASK_BLOCKED ex_boot of Inr s \<Rightarrow> s | Inl _ \<Rightarrow> ex_boot)"

subsection \<open>Lemmas\<close>

lemma sched_pre_iff:
  "sched_pre s \<longleftrightarrow> distinct (ready s) \<and> distinct (all_tasks s) \<and>
     (\<forall>t \<in> set (ready s). t \<in> set (all_tasks s)) \<and> cur s \<in> set (all_tasks s) \<and>
     idle_thread s \<in> set (all_tasks s) \<and> main_thread s \<in> set (all_tasks s) \<and>
     status (tasks s (idle_thread s)) \<noteq> TASK_DIED \<and> status (tasks s (cur s)) \<noteq> TASK_DIED \<and>
     (\<forall>t \<in> set (all_tasks s). ((status (tasks s t) = TASK_READY) = (t \<in> set (ready s))) \<and>
                   (status (tasks s t) = TASK_RUNNING \<longrightarrow> t = cur s) \<and>
                   stack_magic (tasks s t) = 0x19870916)"
  unfolding sched_pre_def list_all_iff by (simp add: if_bool_eq_conj)

lemma sched_preI:
  assumes "distinct (ready s)" "distinct (all_tasks s)" "\<And>t. t \<in> set (ready s) \<Longrightarrow> t \<in> set (all_tasks s)"
    "cur s \<in> set (all_tasks s)" "idle_thread s \<in> set (all_tasks s)" "main_thread s \<in> set (all_tasks s)"
    "status (tasks s (idle_thread s)) \<noteq> TASK_DIED" "status (tasks s (cur s)) \<noteq> TASK_DIED"
    "\<And>t. t \<in> set (all_tasks s) \<Longrightarrow> ((status (tasks s t) = TASK_READY) = (t \<in> set (ready s))) \<and>
           (status (tasks s t) = TASK_RUNNING \<longrightarrow> t = cur s) \<and> stack_magic (tasks s t) = 0x19870916"
  shows "sched_pre s"
  unfolding sched_pre_iff using assms by blast

lemma upd_task_simps [simp]:
  "tasks (upd_task t f s) = (tasks s)(t := f (tasks s t))"
  "ready (upd_task t f s) = ready s" "all_tasks (upd_task t f s) = all_tasks s" "cur (upd_task t f s) = cur s"
  "idle_thread (upd_task t f s) = idle_thread s" "main_thread (upd_task t f s) = main_thread s"
  "intr (upd_task t f s) = intr s" "next_pid (upd_task t f s) = next_pid s"
  "timer_ticks (upd_task t f s) = timer_ticks s"
  by (simp_all add: upd_task_def)

lemma intr_set_status_off [simp]: "intr s = INTR_OFF \<Longrightarrow> snd (intr_set_status INTR_OFF s) = s"
  by (simp add: intr_set_status_def intr_disable_def intr_get_status_def)

lemma intr_set_status_snd: "snd (intr_set_status st s) = s\<lparr>intr := st\<rparr>"
  by (cases st; cases "intr s") (simp_all add: intr_set_status_def intr_disable_def intr_enable_def intr_get_status_def)


lemma intr_disable_eq: "intr_disable s = (intr s, s\<lparr>intr := INTR_OFF\<rparr>)"
  by (cases "intr s") (simp_all add: intr_disable_def intr_get_status_def)

lemma sched_pre_fields [simp]:
  "sched_pre (s\<lparr>intr := x\<rparr>) = sched_pre s" "sched_pre (s\<lparr>timer_ticks := y\<rparr>) = sched_pre s"
  "sched_inv (s\<lparr>intr := x\<rparr>) = sched_inv s" "sched_inv (s\<lparr>timer_ticks := y\<rparr>) = sched_inv s"
  by (simp_all add: sched_pre_def sched_inv_def)

text \<open>
  Changing the current task's control block, and queueing it at the tail when it becomes
  ready: what \<open>schedule\<close>, \<open>thread_yield\<close>, \<open>thread_block\<close> and the timer handler do to
  the running task before the switch.
\<close>

lemma sched_pre_leave_cur:
  assumes inv: "sched_inv s"
    and nd: "status (f (tasks s (cur s))) \<noteq> TASK_DIED"
    and mg: "stack_magic (f (tasks s (cur s))) = 0x19870916"
    and q: "q = (if status (f (tasks s (cur s))) = TASK_READY then ready s @ [cur s] else ready s)"
  shows "sched_pre (upd_task (cur s) f (s\<lparr>ready := q\<rparr>))"
proof -
  let ?s = "upd_task (cur s) f (s\<lparr>ready := q\<rparr>)"
  note P = inv [unfolded sched_inv_def sched_pre_iff]
  have a: "\<forall>t \<in> set (all_tasks s). ((status (tasks s t) = TASK_READY) = (t \<in> set (ready s))) \<and>
                   (status (tasks s t) = TASK_RUNNING \<longrightarrow> t = cur s) \<and> stack_magic (tasks s t) = 0x19870916"
    using P by blast
  have run: "status (tasks s (cur s)) = TASK_RUNNING" and c_all: "cur s \<in> set (all_tasks s)"
    and dr: "distinct (ready s)" and ra: "\<forall>t \<in> set (ready s). t \<in> set (all_tasks s)" using P by blast+
  have "(status (tasks s (cur s)) = TASK_READY) = (cur s \<in> set (ready s))" using a c_all by blast
  then have c_rd: "cur s \<notin> set (ready s)" using run by simp
  have b: "((status (tasks ?s t) = TASK_READY) = (t \<in> set (ready ?s))) \<and>
           (status (tasks ?s t) = TASK_RUNNING \<longrightarrow> t = cur ?s) \<and> stack_magic (tasks ?s t) = 0x19870916"
    if t: "t \<in> set (all_tasks s)" for t
  proof (cases "t = cur s")
    case True
    then show ?thesis using c_rd mg q by simp
  next
    case False
    have "((status (tasks s t) = TASK_READY) = (t \<in> set (ready s))) \<and> status (tasks s t) \<noteq> TASK_RUNNING \<and>
          stack_magic (tasks s t) = 0x19870916"
      using a t False by blast
    then show ?thesis using False q by simp
  qed
  have ea: "all_tasks ?s = all_tasks s" by simp
  have b': "\<forall>t \<in> set (all_tasks ?s). ((status (tasks ?s t) = TASK_READY) = (t \<in> set (ready ?s))) \<and>
               (status (tasks ?s t) = TASK_RUNNING \<longrightarrow> t = cur ?s) \<and> stack_magic (tasks ?s t) = 0x19870916"
    unfolding ea using b by blast
  have r: "distinct (ready ?s)" "\<forall>t \<in> set (ready ?s). t \<in> set (all_tasks ?s)"
    using dr ra c_rd c_all q by auto
  have o: "cur ?s \<in> set (all_tasks ?s)" "idle_thread ?s \<in> set (all_tasks ?s)"
     "main_thread ?s \<in> set (all_tasks ?s)" "distinct (all_tasks ?s)"
    using P by simp_all
  have d: "status (tasks ?s (idle_thread ?s)) \<noteq> TASK_DIED" "status (tasks ?s (cur ?s)) \<noteq> TASK_DIED"
    using P nd by auto
  show ?thesis unfolding sched_pre_iff using r o d b' by blast
qed


lemma sched_inv_cur:
  assumes "sched_inv s"
  shows "status (tasks s (cur s)) = TASK_RUNNING" "stack_magic (tasks s (cur s)) = 0x19870916"
    "cur s \<notin> set (ready s)" "cur s \<in> set (all_tasks s)"
proof -
  note P = assms [unfolded sched_inv_def sched_pre_iff]
  have c: "cur s \<in> set (all_tasks s)" and r: "status (tasks s (cur s)) = TASK_RUNNING" using P by blast+
  have "((status (tasks s (cur s)) = TASK_READY) = (cur s \<in> set (ready s))) \<and> stack_magic (tasks s (cur s)) = 0x19870916"
    using P c by blast
  then show "status (tasks s (cur s)) = TASK_RUNNING" "stack_magic (tasks s (cur s)) = 0x19870916"
    "cur s \<notin> set (ready s)" "cur s \<in> set (all_tasks s)" using r c by simp_all
qed

lemma sched_inv_upd_cur:
  assumes inv: "sched_inv s" and r: "status (f (tasks s (cur s))) = TASK_RUNNING"
    and mg: "stack_magic (f (tasks s (cur s))) = 0x19870916"
  shows "sched_inv (upd_task (cur s) f s)"
proof -
  have "sched_pre (upd_task (cur s) f (s\<lparr>ready := ready s\<rparr>))"
    using r by (intro sched_pre_leave_cur [of s f, OF inv _ mg]) simp_all
  then show ?thesis using r by (simp add: sched_inv_def)
qed


text \<open>The first part of \<open>schedule\<close>: requeueing a running current task.\<close>

lemma schedule_requeue:
  assumes pre: "sched_pre s"
  defines "s1 \<equiv> (if status (tasks s (cur s)) = TASK_RUNNING
                  then upd_task (cur s) (\<lambda>t. t\<lparr>ticks := priority t, status := TASK_READY\<rparr>)
                         (s\<lparr>ready := list_append (ready s) (cur s)\<rparr>)
                  else s)"
  shows "(if status (tasks s (cur s)) = TASK_RUNNING then
            (if elem_find (ready s) (cur s) then Inl (ASSERT_failed ''!elem_find(&thread_ready_list, &cur->general_tag)'')
             else Inr (upd_task (cur s) (\<lambda>t. t\<lparr>ticks := priority t, status := TASK_READY\<rparr>)
                         (s\<lparr>ready := list_append (ready s) (cur s)\<rparr>)))
          else Inr s) = Inr s1"
    and "sched_pre s1" and "status (tasks s1 (cur s1)) \<noteq> TASK_RUNNING"
    and "all_tasks s1 = all_tasks s" "idle_thread s1 = idle_thread s" "main_thread s1 = main_thread s"
        "intr s1 = intr s" "cur s1 = cur s" "next_pid s1 = next_pid s" "timer_ticks s1 = timer_ticks s"
proof -
  note P = pre [unfolded sched_pre_iff]
  have cur_all: "cur s \<in> set (all_tasks s)" using P by blast
  have nr: "status (tasks s (cur s)) = TASK_RUNNING \<Longrightarrow> cur s \<notin> set (ready s)"
    using P cur_all by fastforce
  show "(if status (tasks s (cur s)) = TASK_RUNNING then
            (if elem_find (ready s) (cur s) then Inl (ASSERT_failed ''!elem_find(&thread_ready_list, &cur->general_tag)'')
             else Inr (upd_task (cur s) (\<lambda>t. t\<lparr>ticks := priority t, status := TASK_READY\<rparr>)
                         (s\<lparr>ready := list_append (ready s) (cur s)\<rparr>)))
          else Inr s) = Inr s1"
    using nr by (simp add: s1_def elem_find_def)
  show "sched_pre s1"
  proof (cases "status (tasks s (cur s)) = TASK_RUNNING")
    case True
    then have e: "s1 = upd_task (cur s) (\<lambda>t. t\<lparr>ticks := priority t, status := TASK_READY\<rparr>)
                         (s\<lparr>ready := ready s @ [cur s]\<rparr>)" by (simp add: s1_def list_append_def)
    have inv: "sched_inv s" using pre True by (simp add: sched_inv_def)
    show ?thesis unfolding e
      by (rule sched_pre_leave_cur [of s _ "ready s @ [cur s]", OF inv]) (simp_all add: sched_inv_cur [OF inv])
  next
    case False
    then show ?thesis using pre by (simp add: s1_def)
  qed
  show "status (tasks s1 (cur s1)) \<noteq> TASK_RUNNING" by (simp add: s1_def)
  show "all_tasks s1 = all_tasks s" "idle_thread s1 = idle_thread s" "main_thread s1 = main_thread s"
       "intr s1 = intr s" "cur s1 = cur s" "next_pid s1 = next_pid s" "timer_ticks s1 = timer_ticks s"
    by (simp_all add: s1_def)
qed


text \<open>Unblocking a blocked known task pushes it at the head of the ready queue.\<close>

lemma thread_unblock_pre:
  assumes pre: "sched_pre s" and t: "t \<in> set (all_tasks s)" and blk: "blocked_status (status (tasks s t))"
  defines "s' \<equiv> upd_task t (\<lambda>x. x\<lparr>status := TASK_READY\<rparr>) (s\<lparr>ready := t # ready s\<rparr>)"
  shows "thread_unblock t s = Inr s'" and "sched_pre s'"
    and "\<forall>u. (status (tasks s' u) = TASK_RUNNING) = (status (tasks s u) = TASK_RUNNING)"
    and "all_tasks s' = all_tasks s" "idle_thread s' = idle_thread s" "main_thread s' = main_thread s"
        "intr s' = intr s" "cur s' = cur s" "next_pid s' = next_pid s" "timer_ticks s' = timer_ticks s"
proof -
  note P = pre [unfolded sched_pre_iff]
  have a: "\<forall>u \<in> set (all_tasks s). ((status (tasks s u) = TASK_READY) = (u \<in> set (ready s))) \<and>
                   (status (tasks s u) = TASK_RUNNING \<longrightarrow> u = cur s) \<and> stack_magic (tasks s u) = 0x19870916"
    using P by blast
  have nr: "status (tasks s t) \<noteq> TASK_READY" "status (tasks s t) \<noteq> TASK_RUNNING"
    using blk by (auto simp: blocked_status_def)
  have "(status (tasks s t) = TASK_READY) = (t \<in> set (ready s))" using a t by blast
  then have t_rd: "t \<notin> set (ready s)" using nr by simp
  show "thread_unblock t s = Inr s'"
    using blk nr t_rd
    by (simp add: thread_unblock_def elem_find_def list_push_def intr_set_status_snd intr_get_status_def upd_task_def s'_def)
  show "\<forall>u. (status (tasks s' u) = TASK_RUNNING) = (status (tasks s u) = TASK_RUNNING)"
    using nr by (simp add: s'_def)
  show "all_tasks s' = all_tasks s" "idle_thread s' = idle_thread s" "main_thread s' = main_thread s"
       "intr s' = intr s" "cur s' = cur s" "next_pid s' = next_pid s" "timer_ticks s' = timer_ticks s"
    by (simp_all add: s'_def)
  have b: "((status (tasks s' u) = TASK_READY) = (u \<in> set (ready s'))) \<and>
           (status (tasks s' u) = TASK_RUNNING \<longrightarrow> u = cur s') \<and> stack_magic (tasks s' u) = 0x19870916"
    if u: "u \<in> set (all_tasks s)" for u
  proof (cases "u = t")
    case True
    then show ?thesis using a u by (simp add: s'_def)
  next
    case False
    have "((status (tasks s u) = TASK_READY) = (u \<in> set (ready s))) \<and>
          (status (tasks s u) = TASK_RUNNING \<longrightarrow> u = cur s) \<and> stack_magic (tasks s u) = 0x19870916"
      using a u by blast
    then show ?thesis using False by (simp add: s'_def)
  qed
  have ea: "all_tasks s' = all_tasks s" by (simp add: s'_def)
  have b': "\<forall>u \<in> set (all_tasks s'). ((status (tasks s' u) = TASK_READY) = (u \<in> set (ready s'))) \<and>
               (status (tasks s' u) = TASK_RUNNING \<longrightarrow> u = cur s') \<and> stack_magic (tasks s' u) = 0x19870916"
    unfolding ea using b by blast
  have dr: "distinct (ready s)" and ra: "\<forall>u \<in> set (ready s). u \<in> set (all_tasks s)" using P by blast+
  have r: "distinct (ready s')" "\<forall>u \<in> set (ready s'). u \<in> set (all_tasks s')"
    using dr ra t t_rd by (simp_all add: s'_def)
  have o: "cur s' \<in> set (all_tasks s')" "idle_thread s' \<in> set (all_tasks s')" "main_thread s' \<in> set (all_tasks s')"
     "distinct (all_tasks s')"
    using P by (simp_all add: s'_def)
  have d: "status (tasks s' (idle_thread s')) \<noteq> TASK_DIED" "status (tasks s' (cur s')) \<noteq> TASK_DIED"
    using P by (auto simp: s'_def)
  show "sched_pre s'" unfolding sched_pre_iff using r o d b' by blast
qed

text \<open>The second part: waking the idle task when the ready queue is empty.\<close>

lemma schedule_wake_idle:
  assumes pre: "sched_pre s" and nrun: "status (tasks s (cur s)) \<noteq> TASK_RUNNING" and off: "intr s = INTR_OFF"
  defines "s2 \<equiv> (if ready s = [] then upd_task (idle_thread s) (\<lambda>t. t\<lparr>status := TASK_READY\<rparr>) (s\<lparr>ready := [idle_thread s]\<rparr>)
                 else s)"
  shows "(if list_empty (ready s) then thread_unblock (idle_thread s) s else Inr s) = Inr s2"
    and "sched_pre s2" and "ready s2 \<noteq> []" and "\<forall>t \<in> set (all_tasks s2). status (tasks s2 t) \<noteq> TASK_RUNNING"
    and "all_tasks s2 = all_tasks s" "idle_thread s2 = idle_thread s" "main_thread s2 = main_thread s"
        "intr s2 = intr s" "cur s2 = cur s" "next_pid s2 = next_pid s" "timer_ticks s2 = timer_ticks s"
proof -
  note P = pre [unfolded sched_pre_iff]
  have a: "\<forall>t \<in> set (all_tasks s). ((status (tasks s t) = TASK_READY) = (t \<in> set (ready s))) \<and>
                   (status (tasks s t) = TASK_RUNNING \<longrightarrow> t = cur s)"
    using P by blast
  have idle_all: "idle_thread s \<in> set (all_tasks s)" and idle_nd: "status (tasks s (idle_thread s)) \<noteq> TASK_DIED"
    using P by blast+
  have norun: "\<forall>t \<in> set (all_tasks s). status (tasks s t) \<noteq> TASK_RUNNING" using a nrun by metis
  show "ready s2 \<noteq> []" by (simp add: s2_def)
  show "all_tasks s2 = all_tasks s" "idle_thread s2 = idle_thread s" "main_thread s2 = main_thread s"
       "intr s2 = intr s" "cur s2 = cur s" "next_pid s2 = next_pid s" "timer_ticks s2 = timer_ticks s"
    by (simp_all add: s2_def)
  have "(if list_empty (ready s) then thread_unblock (idle_thread s) s else Inr s) = Inr s2 \<and>
        sched_pre s2 \<and> (\<forall>t \<in> set (all_tasks s2). status (tasks s2 t) \<noteq> TASK_RUNNING)"
  proof (cases "ready s = []")
    case True
    have "(status (tasks s (idle_thread s)) = TASK_READY) = (idle_thread s \<in> set (ready s))"
      using a idle_all by blast
    then have nrd: "status (tasks s (idle_thread s)) \<noteq> TASK_READY" using True by simp
    moreover have "status (tasks s (idle_thread s)) \<noteq> TASK_RUNNING" using norun idle_all by blast
    ultimately have blk: "blocked_status (status (tasks s (idle_thread s)))"
      using idle_nd by (cases "status (tasks s (idle_thread s))") (simp_all add: blocked_status_def)
    have e: "s2 = upd_task (idle_thread s) (\<lambda>x. x\<lparr>status := TASK_READY\<rparr>) (s\<lparr>ready := idle_thread s # ready s\<rparr>)"
      using True by (simp add: s2_def)
    note U = thread_unblock_pre [OF pre idle_all blk, folded e]
    have "\<forall>t \<in> set (all_tasks s2). status (tasks s2 t) \<noteq> TASK_RUNNING" using U(3,4) norun by simp
    then show ?thesis using U(1,2) True by (simp add: list_empty_def)
  next
    case False
    then show ?thesis using pre norun by (simp add: s2_def list_empty_def)
  qed  then show "(if list_empty (ready s) then thread_unblock (idle_thread s) s else Inr s) = Inr s2"
    and "sched_pre s2" and "\<forall>t \<in> set (all_tasks s2). status (tasks s2 t) \<noteq> TASK_RUNNING"
    by blast+
qed


text \<open>The last part: the head of the ready queue becomes the running task.\<close>

lemma schedule_pop:
  assumes pre: "sched_pre s" and ne: "ready s \<noteq> []"
    and norun: "\<forall>t \<in> set (all_tasks s). status (tasks s t) \<noteq> TASK_RUNNING"
  defines "s3 \<equiv> (upd_task (hd (ready s)) (\<lambda>t. t\<lparr>status := TASK_RUNNING\<rparr>) (s\<lparr>ready := tl (ready s)\<rparr>))\<lparr>cur := hd (ready s)\<rparr>"
  shows "sched_inv s3" and "all_tasks s3 = all_tasks s" "idle_thread s3 = idle_thread s" "main_thread s3 = main_thread s"
        "intr s3 = intr s" "next_pid s3 = next_pid s" "timer_ticks s3 = timer_ticks s" "cur s3 = hd (ready s)"
proof -
  note P = pre [unfolded sched_pre_iff]
  obtain n rest where rd: "ready s = n # rest" using ne by (cases "ready s") auto
  have a: "\<forall>t \<in> set (all_tasks s). ((status (tasks s t) = TASK_READY) = (t \<in> set (ready s))) \<and>
                   (status (tasks s t) = TASK_RUNNING \<longrightarrow> t = cur s) \<and> stack_magic (tasks s t) = 0x19870916"
    using P by blast
  have dr: "distinct (ready s)" and ra: "\<forall>t \<in> set (ready s). t \<in> set (all_tasks s)" using P by blast+
  have n_all: "n \<in> set (all_tasks s)" using ra rd by simp
  have n_rest: "n \<notin> set rest" using dr rd by simp
  have b: "((status (tasks s3 t) = TASK_READY) = (t \<in> set (ready s3))) \<and>
           (status (tasks s3 t) = TASK_RUNNING \<longrightarrow> t = cur s3) \<and> stack_magic (tasks s3 t) = 0x19870916"
    if t: "t \<in> set (all_tasks s)" for t
  proof (cases "t = n")
    case True
    then show ?thesis using a t n_rest by (simp add: s3_def rd)
  next
    case False
    have "((status (tasks s t) = TASK_READY) = (t \<in> set (ready s))) \<and> status (tasks s t) \<noteq> TASK_RUNNING \<and>
          stack_magic (tasks s t) = 0x19870916" using a norun t by blast
    then show ?thesis using False by (simp add: s3_def rd)
  qed
  have ea: "all_tasks s3 = all_tasks s" by (simp add: s3_def)
  have b': "\<forall>t \<in> set (all_tasks s3). ((status (tasks s3 t) = TASK_READY) = (t \<in> set (ready s3))) \<and>
               (status (tasks s3 t) = TASK_RUNNING \<longrightarrow> t = cur s3) \<and> stack_magic (tasks s3 t) = 0x19870916"
    unfolding ea using b by blast
  have r: "distinct (ready s3)" "\<forall>t \<in> set (ready s3). t \<in> set (all_tasks s3)"
    using dr ra by (simp_all add: s3_def rd)
  have o: "cur s3 \<in> set (all_tasks s3)" "idle_thread s3 \<in> set (all_tasks s3)" "main_thread s3 \<in> set (all_tasks s3)"
     "distinct (all_tasks s3)"
    using P n_all by (simp_all add: s3_def rd)
  have d: "status (tasks s3 (idle_thread s3)) \<noteq> TASK_DIED" "status (tasks s3 (cur s3)) = TASK_RUNNING"
          "status (tasks s3 (cur s3)) \<noteq> TASK_DIED"
    using P by (auto simp: s3_def rd)
  show "sched_inv s3" unfolding sched_inv_def sched_pre_iff using r o d b' by blast
  show "all_tasks s3 = all_tasks s" "idle_thread s3 = idle_thread s" "main_thread s3 = main_thread s"
       "intr s3 = intr s" "next_pid s3 = next_pid s" "timer_ticks s3 = timer_ticks s" "cur s3 = hd (ready s)"
    by (simp_all add: s3_def)
qed

lemma schedule_inv:
  assumes pre: "sched_pre s" and off: "intr s = INTR_OFF"
  shows "\<exists>s'. schedule s = Inr s' \<and> sched_inv s' \<and> intr s' = INTR_OFF \<and> all_tasks s' = all_tasks s \<and>
              idle_thread s' = idle_thread s \<and> main_thread s' = main_thread s \<and> next_pid s' = next_pid s \<and>
              timer_ticks s' = timer_ticks s"
proof -
  define s1 where "s1 = (if status (tasks s (cur s)) = TASK_RUNNING
                  then upd_task (cur s) (\<lambda>t. t\<lparr>ticks := priority t, status := TASK_READY\<rparr>)
                         (s\<lparr>ready := list_append (ready s) (cur s)\<rparr>)
                  else s)"
  note R = schedule_requeue [OF pre, folded s1_def]
  have off1: "intr s1 = INTR_OFF" using R(7) off by simp
  define s2 where "s2 = (if ready s1 = [] then upd_task (idle_thread s1) (\<lambda>t. t\<lparr>status := TASK_READY\<rparr>) (s1\<lparr>ready := [idle_thread s1]\<rparr>)
                 else s1)"
  note W = schedule_wake_idle [OF R(2) R(3) off1, folded s2_def]
  define s3 where "s3 = (upd_task (hd (ready s2)) (\<lambda>t. t\<lparr>status := TASK_RUNNING\<rparr>) (s2\<lparr>ready := tl (ready s2)\<rparr>))\<lparr>cur := hd (ready s2)\<rparr>"
  note Q = schedule_pop [OF W(2) W(3) W(4), folded s3_def]
  have "schedule s = Inr s3"
    unfolding schedule_def Let_def R(1)
    apply (simp add: intr_get_status_def off W(1))
    apply (simp add: list_empty_def W(3) s3_def)
    done
  then show ?thesis using Q R W off1 by auto
qed


lemma timer_irq_inv:
  assumes inv: "sched_inv s"
  shows "\<exists>s'. timer_irq s = Inr s' \<and> sched_inv s' \<and> intr s' = INTR_ON \<and> all_tasks s' = all_tasks s \<and>
              idle_thread s' = idle_thread s \<and> main_thread s' = main_thread s \<and> next_pid s' = next_pid s \<and>
              timer_ticks s' = timer_ticks s + 1"
proof -
  note C = sched_inv_cur [OF inv]
  define s0 where "s0 = s\<lparr>intr := INTR_OFF, timer_ticks := timer_ticks s + 1\<rparr>"
  have i0: "sched_inv s0" using inv by (simp add: s0_def)
  define s1 where "s1 = upd_task (cur s) (\<lambda>t. t\<lparr>elapsed_ticks := elapsed_ticks t + 1\<rparr>) s0"
  have i1: "sched_inv s1" unfolding s1_def using sched_inv_upd_cur [OF i0] C by (simp add: s0_def)
  have f1: "intr s1 = INTR_OFF" "all_tasks s1 = all_tasks s" "idle_thread s1 = idle_thread s"
    "main_thread s1 = main_thread s" "next_pid s1 = next_pid s" "timer_ticks s1 = timer_ticks s + 1"
    "cur s1 = cur s" by (simp_all add: s1_def s0_def)
  have h: "intr_timer_handler (s\<lparr>intr := INTR_OFF\<rparr>) =
           (if ticks (tasks s1 (cur s)) = 0 then schedule s1
            else Inr (upd_task (cur s) (\<lambda>t. t\<lparr>ticks := ticks t - 1\<rparr>) s1))"
    using C(2) by (simp add: intr_timer_handler_def Let_def s1_def s0_def)
  show ?thesis
  proof (cases "ticks (tasks s1 (cur s)) = 0")
    case True
    obtain s' where "schedule s1 = Inr s'" "sched_inv s'" "intr s' = INTR_OFF" "all_tasks s' = all_tasks s1"
      "idle_thread s' = idle_thread s1" "main_thread s' = main_thread s1" "next_pid s' = next_pid s1"
      "timer_ticks s' = timer_ticks s1"
      using schedule_inv [OF i1 [unfolded sched_inv_def, THEN conjunct1] f1(1)] by blast
    then show ?thesis using True h f1 by (simp add: timer_irq_def)
  next
    case False
    have "sched_inv (upd_task (cur s) (\<lambda>t. t\<lparr>ticks := ticks t - 1\<rparr>) s1)"
      using sched_inv_upd_cur [OF i1] sched_inv_cur [OF i1] by (simp add: f1)
    then show ?thesis using False h f1 by (simp add: timer_irq_def)
  qed
qed


lemma thread_yield_inv:
  assumes inv: "sched_inv s"
  shows "\<exists>s'. thread_yield s = Inr s' \<and> sched_inv s' \<and> intr s' = intr s \<and> all_tasks s' = all_tasks s \<and>
              idle_thread s' = idle_thread s \<and> main_thread s' = main_thread s \<and> next_pid s' = next_pid s \<and>
              timer_ticks s' = timer_ticks s"
proof -
  note C = sched_inv_cur [OF inv]
  define s1 where "s1 = s\<lparr>intr := INTR_OFF\<rparr>"
  have i1: "sched_inv s1" using inv by (simp add: s1_def)
  define s2 where "s2 = upd_task (cur s) (\<lambda>t. t\<lparr>status := TASK_READY\<rparr>) (s1\<lparr>ready := ready s1 @ [cur s]\<rparr>)"
  have p2: "sched_pre s2" unfolding s2_def
    using sched_pre_leave_cur [of s1 "\<lambda>t. t\<lparr>status := TASK_READY\<rparr>" "ready s1 @ [cur s1]", OF i1] C
    by (simp add: s1_def)
  have off2: "intr s2 = INTR_OFF" by (simp add: s2_def s1_def)
  obtain s3 where S: "schedule s2 = Inr s3" "sched_inv s3" "intr s3 = INTR_OFF" "all_tasks s3 = all_tasks s2"
      "idle_thread s3 = idle_thread s2" "main_thread s3 = main_thread s2" "next_pid s3 = next_pid s2"
      "timer_ticks s3 = timer_ticks s2"
    using schedule_inv [OF p2 off2] by blast
  have "thread_yield s = (case schedule s2 of Inl e \<Rightarrow> Inl e | Inr s3 \<Rightarrow> Inr (snd (intr_set_status (intr s) s3)))"
    using C(3) by (simp add: thread_yield_def Let_def intr_disable_eq elem_find_def list_append_def s2_def s1_def)
  then have "thread_yield s = Inr (s3\<lparr>intr := intr s\<rparr>)" using S(1) by (simp add: intr_set_status_snd)
  then show ?thesis using S by (simp add: s2_def s1_def)
qed

lemma thread_block_inv:
  assumes inv: "sched_inv s" and blk: "blocked_status stat"
  shows "\<exists>s'. thread_block stat s = Inr s' \<and> sched_inv s' \<and> intr s' = intr s \<and> all_tasks s' = all_tasks s \<and>
              idle_thread s' = idle_thread s \<and> main_thread s' = main_thread s \<and> next_pid s' = next_pid s \<and>
              timer_ticks s' = timer_ticks s"
proof -
  note C = sched_inv_cur [OF inv]
  have st: "stat \<noteq> TASK_READY" "stat \<noteq> TASK_DIED" using blk by (auto simp: blocked_status_def)
  define s1 where "s1 = s\<lparr>intr := INTR_OFF\<rparr>"
  have i1: "sched_inv s1" using inv by (simp add: s1_def)
  define s2 where "s2 = upd_task (cur s) (\<lambda>t. t\<lparr>status := stat\<rparr>) s1"
  have p2: "sched_pre s2" unfolding s2_def
    using sched_pre_leave_cur [of s1 "\<lambda>t. t\<lparr>status := stat\<rparr>" "ready s1", OF i1] C st
    by (simp add: s1_def)
  have off2: "intr s2 = INTR_OFF" by (simp add: s2_def s1_def)
  obtain s3 where S: "schedule s2 = Inr s3" "sched_inv s3" "intr s3 = INTR_OFF" "all_tasks s3 = all_tasks s2"
      "idle_thread s3 = idle_thread s2" "main_thread s3 = main_thread s2" "next_pid s3 = next_pid s2"
      "timer_ticks s3 = timer_ticks s2"
    using schedule_inv [OF p2 off2] by blast
  have "thread_block stat s = (case schedule s2 of Inl e \<Rightarrow> Inl e | Inr s3 \<Rightarrow> Inr (snd (intr_set_status (intr s) s3)))"
    using blk by (simp add: thread_block_def Let_def intr_disable_eq s2_def s1_def)
  then have "thread_block stat s = Inr (s3\<lparr>intr := intr s\<rparr>)" using S(1) by (simp add: intr_set_status_snd)
  then show ?thesis using S by (simp add: s2_def s1_def)
qed

lemma thread_unblock_inv:
  assumes inv: "sched_inv s" and t: "t \<in> set (all_tasks s)" and blk: "blocked_status (status (tasks s t))"
  shows "\<exists>s'. thread_unblock t s = Inr s' \<and> sched_inv s' \<and> intr s' = intr s \<and> all_tasks s' = all_tasks s \<and>
              idle_thread s' = idle_thread s \<and> main_thread s' = main_thread s \<and> next_pid s' = next_pid s \<and>
              timer_ticks s' = timer_ticks s"
proof -
  have pre: "sched_pre s" using inv by (simp add: sched_inv_def)
  note U = thread_unblock_pre [OF pre t blk]
  have "status (tasks (upd_task t (\<lambda>x. x\<lparr>status := TASK_READY\<rparr>) (s\<lparr>ready := t # ready s\<rparr>)) (cur s)) = TASK_RUNNING"
    using U(3) sched_inv_cur(1) [OF inv] by blast
  then show ?thesis using U by (auto simp: sched_inv_def)
qed


lemma thread_start_inv:
  fixes nm :: string and prio :: int
  assumes inv: "sched_inv s" and t: "t \<notin> set (all_tasks s)"
  defines "T \<equiv> \<lparr>self_kstack = t + 0x1000 - 76 - 32, parent_pid = -1, pid = next_pid s + 1, status = TASK_READY,
                name = nm, priority = word_of_int prio, ticks = word_of_int prio, elapsed_ticks = 0,
                fd_table = [0, 1, 2, -1, -1, -1, -1, -1], pgdir = None, cwd_inode_nr = 0, stack_magic = 0x19870916\<rparr>"
  defines "s' \<equiv> s\<lparr>tasks := (tasks s)(t := T), ready := ready s @ [t], all_tasks := all_tasks s @ [t],
                  next_pid := next_pid s + 1\<rparr>"
  shows "thread_start_pcb nm prio t s = Inr s'" and "sched_inv s'"
proof -
  note P = inv [unfolded sched_inv_def sched_pre_iff]
  have a: "\<forall>u \<in> set (all_tasks s). ((status (tasks s u) = TASK_READY) = (u \<in> set (ready s))) \<and>
                   (status (tasks s u) = TASK_RUNNING \<longrightarrow> u = cur s) \<and> stack_magic (tasks s u) = 0x19870916"
    using P by blast
  have ra: "\<forall>u \<in> set (ready s). u \<in> set (all_tasks s)" and m: "main_thread s \<in> set (all_tasks s)"
    and c: "cur s \<in> set (all_tasks s)" and i: "idle_thread s \<in> set (all_tasks s)" using P by blast+
  have t_rd: "t \<notin> set (ready s)" using ra t by blast
  have tm: "t \<noteq> main_thread s" "t \<noteq> cur s" "t \<noteq> idle_thread s" using m c i t by auto
  show "thread_start_pcb nm prio t s = Inr s'"
    using t t_rd tm(1)
    by (simp add: thread_start_pcb_def Let_def thread_create_def init_thread_def allocate_pid_def upd_task_def
                  elem_find_def list_append_def s'_def T_def)
  have b: "((status (tasks s' u) = TASK_READY) = (u \<in> set (ready s'))) \<and>
           (status (tasks s' u) = TASK_RUNNING \<longrightarrow> u = cur s') \<and> stack_magic (tasks s' u) = 0x19870916"
    if u: "u \<in> set (all_tasks s')" for u
  proof (cases "u = t")
    case True
    then show ?thesis by (simp add: s'_def T_def)
  next
    case False
    then have "u \<in> set (all_tasks s)" using u by (simp add: s'_def)
    then have "((status (tasks s u) = TASK_READY) = (u \<in> set (ready s))) \<and>
          (status (tasks s u) = TASK_RUNNING \<longrightarrow> u = cur s) \<and> stack_magic (tasks s u) = 0x19870916"
      using a by blast
    then show ?thesis using False by (simp add: s'_def)
  qed
  have "sched_pre s'"
  proof (rule sched_preI)
    show "distinct (ready s')" "distinct (all_tasks s')" using P t t_rd by (simp_all add: s'_def)
    show "u \<in> set (all_tasks s')" if "u \<in> set (ready s')" for u using that ra by (auto simp: s'_def)
  qed (use P tm b in \<open>simp_all add: s'_def\<close>)
  then show "sched_inv s'" using P tm by (simp add: sched_inv_def s'_def)
qed


lemma thread_unblock_blocked: "thread_unblock t s = Inr s' \<Longrightarrow> blocked_status (status (tasks s t))"
  by (simp add: thread_unblock_def Let_def split: if_splits)

lemma thread_block_blocked: "thread_block st s = Inr s' \<Longrightarrow> blocked_status st"
  by (simp add: thread_block_def split: if_splits)

lemma sched_step_inv:
  assumes "sched_step s s'" and inv: "sched_inv s"
  shows "sched_inv s'"
  using assms(1)
proof (cases rule: sched_step.cases)
  case tick
  then show ?thesis using timer_irq_inv [OF inv] by auto
next
  case yield
  then show ?thesis using thread_yield_inv [OF inv] by auto
next
  case (block st)
  then show ?thesis using thread_block_inv [OF inv thread_block_blocked [OF block]] by auto
next
  case (unblock t)
  then show ?thesis using thread_unblock_inv [OF inv unblock(1) thread_unblock_blocked [OF unblock(2)]] by auto
next
  case (start t nm prio)
  then show ?thesis using thread_start_inv(1,2) [OF inv start(1), of nm prio] by simp
qed


lemma timer_run_add:
  "timer_run (m + n) s = (case timer_run m s of Inl e \<Rightarrow> Inl e | Inr s' \<Rightarrow> timer_run n s')"
  by (induction m arbitrary: s) (simp_all split: sum.split)

lemma timer_irq_dec:
  assumes inv: "sched_inv s" and k: "ticks (tasks s (cur s)) \<noteq> 0"
  shows "timer_irq s = Inr (upd_task (cur s) (\<lambda>t. t\<lparr>elapsed_ticks := elapsed_ticks t + 1, ticks := ticks t - 1\<rparr>)
                              (s\<lparr>intr := INTR_ON, timer_ticks := timer_ticks s + 1\<rparr>))"
  using k sched_inv_cur(2) [OF inv]
  by (simp add: timer_irq_def intr_timer_handler_def Let_def upd_task_def)

lemma timer_irq_switch:
  assumes inv: "sched_inv s" and k: "ticks (tasks s (cur s)) = 0" and ne: "ready s \<noteq> []"
  shows "\<exists>s'. timer_irq s = Inr s' \<and> sched_inv s' \<and> cur s' = hd (ready s) \<and> ready s' = tl (ready s) @ [cur s] \<and>
              status (tasks s' (cur s)) = TASK_READY \<and> ticks (tasks s' (cur s)) = priority (tasks s (cur s)) \<and>
              intr s' = INTR_ON \<and> timer_ticks s' = timer_ticks s + 1"
proof -
  note C = sched_inv_cur [OF inv]
  have hd: "hd (ready s) \<noteq> cur s" using C(3) ne by (cases "ready s") auto
  define s' where "s' = (upd_task (hd (ready s)) (\<lambda>t. t\<lparr>status := TASK_RUNNING\<rparr>)
     ((upd_task (cur s) (\<lambda>t. t\<lparr>ticks := priority t, status := TASK_READY\<rparr>)
        (upd_task (cur s) (\<lambda>t. t\<lparr>elapsed_ticks := elapsed_ticks t + 1\<rparr>)
          (s\<lparr>intr := INTR_OFF, timer_ticks := timer_ticks s + 1\<rparr>)))\<lparr>ready := tl (ready s) @ [cur s]\<rparr>))
     \<lparr>cur := hd (ready s), intr := INTR_ON\<rparr>"
  have e: "timer_irq s = Inr s'"
    using k C ne hd
    by (simp add: timer_irq_def intr_timer_handler_def schedule_def Let_def intr_get_status_def elem_find_def
                  list_append_def list_empty_def s'_def)
  obtain s'' where "timer_irq s = Inr s''" "sched_inv s''" using timer_irq_inv [OF inv] by blast
  then have "sched_inv s'" using e by simp
  then show ?thesis using e hd C by (simp add: s'_def)
qed


lemma word_sub_of_nat_nz:
  fixes x :: "'a::len word"
  assumes "n < unat x"
  shows "x - of_nat n \<noteq> 0"
proof -
  have "unat x < 2 ^ LENGTH('a)" by (rule unsigned_less)
  then have "n < 2 ^ LENGTH('a)" using assms by linarith
  then have "of_nat n < x" using assms by (simp add: word_less_nat_alt unat_of_nat)
  then show ?thesis by simp
qed

lemma timer_run_slice:
  assumes inv: "sched_inv s" and on: "intr s = INTR_ON" and n: "n \<le> unat (ticks (tasks s (cur s)))"
  shows "timer_run n s = Inr (upd_task (cur s) (\<lambda>t. t\<lparr>elapsed_ticks := elapsed_ticks t + of_nat n, ticks := ticks t - of_nat n\<rparr>)
                               (s\<lparr>intr := INTR_ON, timer_ticks := timer_ticks s + of_nat n\<rparr>))"
  using n
proof (induction n)
  case 0
  then show ?case using on by (cases s) (simp add: upd_task_def)
next
  case (Suc n)
  define sn where "sn = upd_task (cur s) (\<lambda>t. t\<lparr>elapsed_ticks := elapsed_ticks t + of_nat n, ticks := ticks t - of_nat n\<rparr>)
                               (s\<lparr>intr := INTR_ON, timer_ticks := timer_ticks s + of_nat n\<rparr>)"
  have ih: "timer_run n s = Inr sn" using Suc by (simp add: sn_def)
  have i: "sched_inv sn" unfolding sn_def
    using sched_inv_upd_cur [of "s\<lparr>intr := INTR_ON, timer_ticks := timer_ticks s + of_nat n\<rparr>"] inv sched_inv_cur [OF inv] by simp
  have nz: "ticks (tasks sn (cur sn)) \<noteq> 0"
    using word_sub_of_nat_nz [of n "ticks (tasks s (cur s))"] Suc.prems by (simp add: sn_def)
  have "timer_run (Suc n) s = timer_irq sn"
    using timer_run_add [of n 1 s] ih by (simp split: sum.split)
  moreover have "timer_irq sn = Inr (upd_task (cur s)
      (\<lambda>t. t\<lparr>elapsed_ticks := elapsed_ticks t + of_nat (Suc n), ticks := ticks t - of_nat (Suc n)\<rparr>)
      (s\<lparr>intr := INTR_ON, timer_ticks := timer_ticks s + of_nat (Suc n)\<rparr>))"
    using timer_irq_dec [OF i nz] on by (simp add: sn_def upd_task_def add.assoc diff_diff_eq add.commute)
  ultimately show ?case by (rule trans)
qed


lemma timer_run_switch:
  assumes inv: "sched_inv s" and on: "intr s = INTR_ON" and ne: "ready s \<noteq> []"
  shows "\<exists>s'. timer_run (unat (ticks (tasks s (cur s))) + 1) s = Inr s' \<and> sched_inv s' \<and> intr s' = INTR_ON \<and>
              cur s' = hd (ready s) \<and> ready s' = tl (ready s) @ [cur s] \<and>
              ticks (tasks s' (cur s)) = priority (tasks s (cur s))"
proof -
  define k where "k = unat (ticks (tasks s (cur s)))"
  define sk where "sk = upd_task (cur s) (\<lambda>t. t\<lparr>elapsed_ticks := elapsed_ticks t + of_nat k, ticks := ticks t - of_nat k\<rparr>)
                               (s\<lparr>intr := INTR_ON, timer_ticks := timer_ticks s + of_nat k\<rparr>)"
  have run: "timer_run k s = Inr sk" unfolding sk_def by (rule timer_run_slice [OF inv on]) (simp add: k_def)
  have ik: "sched_inv sk" unfolding sk_def
    using sched_inv_upd_cur [of "s\<lparr>intr := INTR_ON, timer_ticks := timer_ticks s + of_nat k\<rparr>"] inv sched_inv_cur [OF inv] by simp
  have z: "ticks (tasks sk (cur sk)) = 0" by (simp add: sk_def k_def)
  have f: "ready sk = ready s" "cur sk = cur s" "priority (tasks sk (cur s)) = priority (tasks s (cur s))"
    by (simp_all add: sk_def)
  obtain s' where S: "timer_irq sk = Inr s'" "sched_inv s'" "cur s' = hd (ready sk)" "ready s' = tl (ready sk) @ [cur sk]"
      "ticks (tasks s' (cur sk)) = priority (tasks sk (cur sk))" "intr s' = INTR_ON"
    using timer_irq_switch [OF ik z] ne f by auto
  have "timer_run (k + 1) s = Inr s'" using timer_run_add [of k 1 s] run S(1) by simp
  then show ?thesis using S f by (simp add: k_def)
qed

lemma distinct_filter_single:
  "distinct xs \<Longrightarrow> x \<in> set xs \<Longrightarrow> (\<And>y. y \<in> set xs \<Longrightarrow> P y = (y = x)) \<Longrightarrow> filter P xs = [x]"
proof (induction xs)
  case (Cons a xs)
  then show ?case by (cases "a = x") (auto simp: filter_empty_conv)
qed simp

lemma allocate_pid_iter:
  "((\<lambda>s. snd (allocate_pid s)) ^^ n) s = s\<lparr>next_pid := next_pid s + of_nat n\<rparr>"
  by (induction n) (simp_all add: allocate_pid_def add.assoc add.commute)


lemma round_robin_index:
  assumes "sched_inv s" "intr s = INTR_ON" "i < length (ready s)"
  shows "\<exists>n s'. timer_run n s = Inr s' \<and> cur s' = ready s ! i"
  using assms
proof (induction i arbitrary: s)
  case 0
  then obtain s' where "timer_run (unat (ticks (tasks s (cur s))) + 1) s = Inr s'" "cur s' = hd (ready s)"
    using timer_run_switch [of s] by fastforce
  moreover have "hd (ready s) = ready s ! 0" using 0 by (simp add: hd_conv_nth)
  ultimately show ?case by metis
next
  case (Suc i)
  obtain s1 where S: "timer_run (unat (ticks (tasks s (cur s))) + 1) s = Inr s1" "sched_inv s1" "intr s1 = INTR_ON"
      "ready s1 = tl (ready s) @ [cur s]"
    using timer_run_switch [of s] Suc.prems by fastforce
  have "i < length (ready s1)" "ready s1 ! i = ready s ! Suc i"
    using Suc.prems(3) S(4) by (auto simp: nth_append nth_tl)
  then obtain n s' where "timer_run n s1 = Inr s'" "cur s' = ready s ! Suc i"
    using Suc.IH [OF S(2) S(3)] by auto
  then have "timer_run (unat (ticks (tasks s (cur s))) + 1 + n) s = Inr s' \<and> cur s' = ready s ! Suc i"
    using timer_run_add [of "unat (ticks (tasks s (cur s))) + 1" n s] S(1) by simp
  then show ?case by blast
qed

lemmas sched_eval = thread_init_def make_main_thread_def thread_start_pcb_def init_thread_def allocate_pid_def
  thread_create_def upd_task_def elem_find_def list_append_def list_empty_def list_push_def intr_get_status_def
  intr_set_status_def intr_enable_def intr_disable_def schedule_def thread_block_def thread_unblock_def
  blocked_status_def thread_yield_def timer_irq_def intr_timer_handler_def sched_inv_def sched_pre_def
  ex_sched0_def ex_task0_def

lemma ex_boot_eq:
  "ex_boot = ex_sched0\<lparr>tasks := (\<lambda>_. ex_task0)
      (0xc009e000 := \<lparr>self_kstack = 0xc009f000, parent_pid = -1, pid = 1, status = TASK_RUNNING, name = ''main'',
          priority = 31, ticks = 31, elapsed_ticks = 0, fd_table = [0, 1, 2, -1, -1, -1, -1, -1], pgdir = None,
          cwd_inode_nr = 0, stack_magic = 0x19870916\<rparr>,
       0xc0101000 := \<lparr>self_kstack = 0xc0101f94, parent_pid = -1, pid = 2, status = TASK_READY, name = ''idle'',
          priority = 10, ticks = 10, elapsed_ticks = 0, fd_table = [0, 1, 2, -1, -1, -1, -1, -1], pgdir = None,
          cwd_inode_nr = 0, stack_magic = 0x19870916\<rparr>),
     ready := [0xc0101000], all_tasks := [0xc009e000, 0xc0101000], idle_thread := 0xc0101000,
     main_thread := 0xc009e000, intr := INTR_ON, next_pid := 2\<rparr>"
  by (simp add: ex_boot_def sched_eval)

lemma ex_boot_inv: "sched_inv ex_boot"
  by (simp add: ex_boot_eq sched_eval)


lemma ex_boot_fields:
  "cur ex_boot = 0xc009e000" "ready ex_boot = [0xc0101000]" "intr ex_boot = INTR_ON"
  "ticks (tasks ex_boot 0xc009e000) = 31" "priority (tasks ex_boot 0xc009e000) = 31"
  "all_tasks ex_boot = [0xc009e000, 0xc0101000]" "next_pid ex_boot = 2"
  by (simp_all add: ex_boot_eq ex_sched0_def)

lemma ex_blocked_eq:
  "ex_blocked = ex_boot\<lparr>tasks := (tasks ex_boot)
      (0xc009e000 := (tasks ex_boot 0xc009e000)\<lparr>status := TASK_BLOCKED\<rparr>,
       0xc0101000 := (tasks ex_boot 0xc0101000)\<lparr>status := TASK_RUNNING\<rparr>),
     ready := [], cur := 0xc0101000\<rparr>"
  by (simp add: ex_blocked_def ex_boot_eq sched_eval)

subsection \<open>Properties of the scheduler\<close>

text \<open>
  C22. Every state reachable by timer interrupts, yields, blocks, unblocks of known tasks
  and thread starts on fresh pages from a well-formed state is well formed: the ready
  queue holds exactly the ready tasks, without duplicates, no task but the current one
  runs, the current task runs and every stack guard is intact.
\<close>

theorem sched_reachable_inv:
  assumes "sched_step\<^sup>*\<^sup>* s0 s" and "sched_inv s0"
  shows "sched_inv s"
  using assms by (induction rule: rtranclp_induct) (auto intro: sched_step_inv)

theorem sched_reachable_inv_witness: "sched_inv ex_blocked"
proof -
  have "sched_step ex_boot ex_blocked"
    by (rule sched_step.block [of TASK_BLOCKED]) (simp add: ex_blocked_eq ex_boot_eq sched_eval)
  then have "sched_step\<^sup>*\<^sup>* ex_boot ex_blocked" by simp
  then show ?thesis using sched_reachable_inv [of ex_boot ex_blocked] ex_boot_inv by simp
qed

text \<open>
  In a well-formed state exactly one task of \<open>thread_all_list\<close> is running, the
  current one, and the tasks in state \<open>TASK_READY\<close> are exactly those of the ready queue.
\<close>

theorem sched_inv_one_running:
  assumes "sched_inv s"
  shows "filter (\<lambda>t. status (tasks s t) = TASK_RUNNING) (all_tasks s) = [cur s] \<and>
         set (filter (\<lambda>t. status (tasks s t) = TASK_READY) (all_tasks s)) = set (ready s)"
proof -
  note P = assms [unfolded sched_inv_def sched_pre_iff]
  have a: "\<forall>u \<in> set (all_tasks s). ((status (tasks s u) = TASK_READY) = (u \<in> set (ready s))) \<and>
                   (status (tasks s u) = TASK_RUNNING \<longrightarrow> u = cur s)" using P by blast
  have r: "status (tasks s (cur s)) = TASK_RUNNING" "cur s \<in> set (all_tasks s)" "distinct (all_tasks s)"
    and ra: "\<forall>u \<in> set (ready s). u \<in> set (all_tasks s)" using P by blast+
  have "filter (\<lambda>t. status (tasks s t) = TASK_RUNNING) (all_tasks s) = [cur s]"
    by (rule distinct_filter_single [OF r(3) r(2)]) (use a r(1) in blast)
  moreover have "set (filter (\<lambda>t. status (tasks s t) = TASK_READY) (all_tasks s)) = set (ready s)"
    using a ra by auto
  ultimately show ?thesis by blast
qed

theorem sched_inv_one_running_witness:
  "filter (\<lambda>t. status (tasks ex_boot t) = TASK_RUNNING) (all_tasks ex_boot) = [0xc009e000] \<and>
   set (filter (\<lambda>t. status (tasks ex_boot t) = TASK_READY) (all_tasks ex_boot)) = {0xc0101000}"
  using sched_inv_one_running [OF ex_boot_inv] by (simp add: ex_boot_eq)


text \<open>
  C25. Time slices: a running task whose counter \<open>ticks\<close> is \<open>k\<close> keeps the processor for
  the next \<open>k\<close> timer interrupts, and the interrupt after them puts it at the tail of the
  ready queue with a fresh counter equal to its priority while the head of the queue runs.
  A task therefore runs for \<open>priority + 1\<close> ticks per slice.
\<close>

theorem time_slice:
  assumes "sched_inv s" and "intr s = INTR_ON" and "ready s \<noteq> []"
  shows "(\<forall>n \<le> unat (ticks (tasks s (cur s))). \<exists>s'. timer_run n s = Inr s' \<and> cur s' = cur s \<and> ready s' = ready s) \<and>
         (\<exists>s'. timer_run (unat (ticks (tasks s (cur s))) + 1) s = Inr s' \<and> cur s' = hd (ready s) \<and>
               ready s' = tl (ready s) @ [cur s] \<and> ticks (tasks s' (cur s)) = priority (tasks s (cur s)))"
proof -
  have "\<exists>s'. timer_run n s = Inr s' \<and> cur s' = cur s \<and> ready s' = ready s"
    if "n \<le> unat (ticks (tasks s (cur s)))" for n
    using timer_run_slice [OF assms(1,2) that] by simp
  then show ?thesis using timer_run_switch [OF assms] by blast
qed

theorem time_slice_witness:
  "(\<exists>s'. timer_run 31 ex_boot = Inr s' \<and> cur s' = 0xc009e000 \<and> ready s' = [0xc0101000]) \<and>
   (\<exists>s'. timer_run 32 ex_boot = Inr s' \<and> cur s' = 0xc0101000 \<and> ready s' = [0xc009e000] \<and>
         ticks (tasks s' 0xc009e000) = 31)"
proof -
  note T = time_slice [OF ex_boot_inv]
  have "(\<forall>n \<le> 31. \<exists>s'. timer_run n ex_boot = Inr s' \<and> cur s' = 0xc009e000 \<and> ready s' = [0xc0101000]) \<and>
   (\<exists>s'. timer_run 32 ex_boot = Inr s' \<and> cur s' = 0xc0101000 \<and> ready s' = [0xc009e000] \<and>
         ticks (tasks s' 0xc009e000) = 31)"
    using T by (simp add: ex_boot_fields)
  then show ?thesis by blast
qed

text \<open>
  C26. Round robin: under timer interrupts alone, every task of the ready queue of a
  well-formed state eventually becomes the running task.
\<close>

theorem round_robin_liveness:
  assumes "sched_inv s" and "intr s = INTR_ON" and "t \<in> set (ready s)"
  shows "\<exists>n s'. timer_run n s = Inr s' \<and> cur s' = t"
proof -
  obtain i where "i < length (ready s)" "ready s ! i = t" using assms(3) by (auto simp: in_set_conv_nth)
  then show ?thesis using round_robin_index [OF assms(1,2)] by blast
qed

theorem round_robin_liveness_witness:
  "\<exists>n s'. timer_run n ex_boot = Inr s' \<and> cur s' = 0xc0101000"
  using round_robin_liveness [OF ex_boot_inv] by (simp add: ex_boot_fields)

text \<open>
  \<open>thread_unblock\<close> of a blocked task of a well-formed state pushes it at the head of
  the ready queue, marks it ready and keeps the state well formed.
\<close>

theorem thread_unblock_head:
  assumes "sched_inv s" and "t \<in> set (all_tasks s)" and "blocked_status (status (tasks s t))"
  shows "\<exists>s'. thread_unblock t s = Inr s' \<and> ready s' = t # ready s \<and> status (tasks s' t) = TASK_READY \<and>
              cur s' = cur s \<and> sched_inv s'"
proof -
  have pre: "sched_pre s" using assms(1) by (simp add: sched_inv_def)
  note U = thread_unblock_pre [OF pre assms(2,3)]
  obtain s' where E: "thread_unblock t s = Inr s'" "sched_inv s'" using thread_unblock_inv [OF assms] by blast
  have "s' = upd_task t (\<lambda>x. x\<lparr>status := TASK_READY\<rparr>) (s\<lparr>ready := t # ready s\<rparr>)" using E(1) U(1) by simp
  then show ?thesis using E by simp
qed

theorem thread_unblock_head_witness:
  "\<exists>s'. thread_unblock 0xc009e000 ex_blocked = Inr s' \<and> ready s' = [0xc009e000] \<and>
        status (tasks s' 0xc009e000) = TASK_READY \<and> cur s' = 0xc0101000 \<and> sched_inv s'"
proof -
  have "sched_inv ex_blocked" "0xc009e000 \<in> set (all_tasks ex_blocked)"
       "blocked_status (status (tasks ex_blocked 0xc009e000))"
    by (simp_all add: ex_blocked_eq ex_boot_eq sched_eval)
  from thread_unblock_head [OF this] show ?thesis by (simp add: ex_blocked_eq ex_boot_fields)
qed

text \<open>
  \<open>thread_unblock\<close> of a task that is not blocked, waiting or hanging (in particular
  of a task that is already ready) fails its assertion.
\<close>

theorem thread_unblock_not_blocked:
  assumes "\<not> blocked_status (status (tasks s t))"
  shows "thread_unblock t s = Inl (ASSERT_failed ''((pthread->status == TASK_BLOCKED) || (pthread->status == TASK_WAITING) || (pthread->status == TASK_HANGING))'')"
  using assms by (simp add: thread_unblock_def)

theorem thread_unblock_not_blocked_witness:
  "thread_unblock 0xc0101000 ex_boot = Inl (ASSERT_failed ''((pthread->status == TASK_BLOCKED) || (pthread->status == TASK_WAITING) || (pthread->status == TASK_HANGING))'')"
proof -
  have "\<not> blocked_status (status (tasks ex_boot 0xc0101000))" by (simp add: ex_boot_eq blocked_status_def)
  then show ?thesis by (rule thread_unblock_not_blocked)
qed

text \<open>
  \<open>allocate_pid\<close> counts in a 16-bit \<open>pid_t\<close>: the 65537th allocation returns the
  same identifier as the first.
\<close>

theorem allocate_pid_wraps:
  "fst (allocate_pid (((\<lambda>s. snd (allocate_pid s)) ^^ 65536) s)) = fst (allocate_pid s)"
  unfolding allocate_pid_iter by (simp add: allocate_pid_def)

text \<open>
  \<open>thread_start\<close> on a page that is not a known task, in a well-formed state,
  appends the new task to the tails of both queues as a ready task with the given
  priority as its time slice and the next pid, and keeps the state well formed.
\<close>

theorem thread_start_appends:
  assumes "sched_inv s" and "t \<notin> set (all_tasks s)"
  shows "\<exists>s'. thread_start_pcb nm prio t s = Inr s' \<and> sched_inv s' \<and> ready s' = ready s @ [t] \<and>
              all_tasks s' = all_tasks s @ [t] \<and> status (tasks s' t) = TASK_READY \<and>
              priority (tasks s' t) = word_of_int prio \<and> ticks (tasks s' t) = word_of_int prio \<and>
              pid (tasks s' t) = next_pid s + 1 \<and> cur s' = cur s"
  using thread_start_inv [OF assms, of nm prio] by simp

theorem thread_start_appends_witness:
  "\<exists>s'. thread_start_pcb ''k_reader'' 5 0xc0102000 ex_boot = Inr s' \<and> sched_inv s' \<and>
        ready s' = [0xc0101000, 0xc0102000] \<and> all_tasks s' = [0xc009e000, 0xc0101000, 0xc0102000] \<and>
        status (tasks s' 0xc0102000) = TASK_READY \<and> priority (tasks s' 0xc0102000) = 5 \<and>
        ticks (tasks s' 0xc0102000) = 5 \<and> pid (tasks s' 0xc0102000) = 3 \<and> cur s' = 0xc009e000"
proof -
  have "(0xc0102000::u32) \<notin> set (all_tasks ex_boot)" by (simp add: ex_boot_fields)
  from thread_start_appends [OF ex_boot_inv this, of "''k_reader''" 5] show ?thesis
    by (simp add: ex_boot_fields)
qed

text \<open>
  \<open>thread_init\<close> (without a first user process) establishes the invariant: \<open>main\<close>
  runs, the idle task is the only ready task, and both are the known tasks.
\<close>

theorem thread_init_boot:
  assumes idle: "idle \<noteq> cur s"
  shows "\<exists>s'. thread_init (\<lambda>s. Inr s) idle s = Inr s' \<and> sched_inv s' \<and> all_tasks s' = [cur s, idle] \<and>
              ready s' = [idle] \<and> cur s' = cur s \<and> main_thread s' = cur s \<and> idle_thread s' = idle"
  using idle by (simp add: sched_eval Let_def)


theorem thread_init_boot_witness:
  "\<exists>s'. thread_init (\<lambda>s. Inr s) 0xc0101000 ex_sched0 = Inr s' \<and> sched_inv s' \<and>
        all_tasks s' = [0xc009e000, 0xc0101000] \<and> ready s' = [0xc0101000] \<and> cur s' = 0xc009e000 \<and>
        main_thread s' = 0xc009e000 \<and> idle_thread s' = 0xc0101000"
  using thread_init_boot [of "0xc0101000" ex_sched0] by (simp add: ex_sched0_def)

end
