(* ===== verification/Sync.thy ===== *)
theory Sync
  imports Sched
begin

text \<open>
  Semaphores and locks of \<open>src/thread/sync.c\<close>. A semaphore is its value (the field
  \<open>sema_value\<close>; \<open>value\<close> is an Isabelle command) and its queue of waiting tasks; a lock adds the holder (\<open>None\<close> for \<open>NULL\<close>) and the
  reentrancy count. The objects live in kernel memory and are passed explicitly beside the
  scheduler state they act on.

  \<open>sema_down\<close> may suspend its caller: the loop \<open>while (psema->value == 0)\<close> blocks the
  running task, and the task re-tests the condition when it runs again. The model splits
  the loop at this suspension point: \<open>sema_down_step\<close> is one test of the condition by
  the running task, returning \<open>True\<close> when it took the semaphore and \<open>False\<close> when it
  queued itself and blocked (the state returned is then the one after the switch to the
  next task); \<open>sema_down_finish\<close> is what a task executes from the test on, the first time
  or after it was woken, and ends with \<open>intr_set_status(old_status)\<close>.
\<close>

section \<open>Semaphores and locks\<close>

record semaphore =
  sema_value :: u8
  waiters :: "tid list"

record lock =
  holder :: "tid option"
  holder_repeat_nr :: u32
  semaphore :: semaphore

definition sema_init :: "u8 \<Rightarrow> semaphore" where
  "sema_init v = \<lparr>sema_value = v, waiters = []\<rparr>"

definition lock_init :: lock where
  "lock_init = \<lparr>holder = None, holder_repeat_nr = 0, semaphore = sema_init 1\<rparr>"

definition sema_down_step :: "semaphore \<Rightarrow> sched \<Rightarrow> fatal + (bool \<times> semaphore \<times> sched)" where
  "sema_down_step psema s =
     (if sema_value psema = 0 then
        (if elem_find (waiters psema) (cur s)
         then Inl (ASSERT_failed ''!elem_find(&psema->waiters, &running_thread()->general_tag)'')
         else let psema1 = psema\<lparr>waiters := list_append (waiters psema) (cur s)\<rparr> in
           (case thread_block TASK_BLOCKED s of Inl e \<Rightarrow> Inl e | Inr s1 \<Rightarrow> Inr (False, psema1, s1)))
      else let psema1 = psema\<lparr>sema_value := sema_value psema - 1\<rparr> in
        if sema_value psema1 \<noteq> 0 then Inl (ASSERT_failed ''psema->value == 0'') else Inr (True, psema1, s))"

definition sema_down_finish :: "intr_status \<Rightarrow> semaphore \<Rightarrow> sched \<Rightarrow> fatal + (bool \<times> semaphore \<times> sched)" where
  "sema_down_finish old_status psema s =
     (case sema_down_step psema s of
        Inl e \<Rightarrow> Inl e
      | Inr (True, psema1, s1) \<Rightarrow> Inr (True, psema1, snd (intr_set_status old_status s1))
      | Inr (False, psema1, s1) \<Rightarrow> Inr (False, psema1, s1))"

definition sema_down :: "semaphore \<Rightarrow> sched \<Rightarrow> fatal + (bool \<times> semaphore \<times> sched)" where
  "sema_down psema s = (let (old_status, s1) = intr_disable s in sema_down_finish old_status psema s1)"

definition sema_up :: "semaphore \<Rightarrow> sched \<Rightarrow> fatal + (semaphore \<times> sched)" where
  "sema_up psema s =
     (let (old_status, s1) = intr_disable s in
      if sema_value psema \<noteq> 0 then Inl (ASSERT_failed ''psema->value == 0'')
      else
        (case (if \<not> list_empty (waiters psema) then
                 (case thread_unblock (hd (waiters psema)) s1 of
                    Inl e \<Rightarrow> Inl e
                  | Inr s2 \<Rightarrow> Inr (psema\<lparr>waiters := tl (waiters psema)\<rparr>, s2))
               else Inr (psema, s1)) of
           Inl e \<Rightarrow> Inl e
         | Inr (psema2, s2) \<Rightarrow>
             let psema3 = psema2\<lparr>sema_value := sema_value psema2 + 1\<rparr> in
             if sema_value psema3 \<noteq> 1 then Inl (ASSERT_failed ''psema->value == 1'')
             else Inr (psema3, snd (intr_set_status old_status s2))))"

text \<open>
  \<open>lock_acquire\<close>: a task that does not hold the lock takes its semaphore (and may be
  suspended there; \<open>lock_acquire_resume\<close> continues it), then records itself as holder.
\<close>

definition lock_take :: "lock \<Rightarrow> sched \<Rightarrow> fatal + lock" where
  "lock_take plock s =
     (let plock1 = plock\<lparr>holder := Some (cur s)\<rparr> in
      if holder_repeat_nr plock1 \<noteq> 0 then Inl (ASSERT_failed ''plock->holder_repeat_nr == 0'')
      else Inr (plock1\<lparr>holder_repeat_nr := 1\<rparr>))"

definition lock_after_down :: "lock \<Rightarrow> fatal + (bool \<times> semaphore \<times> sched) \<Rightarrow> fatal + (bool \<times> lock \<times> sched)" where
  "lock_after_down plock r =
     (case r of
        Inl e \<Rightarrow> Inl e
      | Inr (False, psema, s1) \<Rightarrow> Inr (False, plock\<lparr>semaphore := psema\<rparr>, s1)
      | Inr (True, psema, s1) \<Rightarrow>
          (case lock_take (plock\<lparr>semaphore := psema\<rparr>) s1 of Inl e \<Rightarrow> Inl e | Inr plock1 \<Rightarrow> Inr (True, plock1, s1)))"

definition lock_acquire :: "lock \<Rightarrow> sched \<Rightarrow> fatal + (bool \<times> lock \<times> sched)" where
  "lock_acquire plock s =
     (if holder plock \<noteq> Some (cur s) then lock_after_down plock (sema_down (semaphore plock) s)
      else Inr (True, plock\<lparr>holder_repeat_nr := holder_repeat_nr plock + 1\<rparr>, s))"

definition lock_acquire_resume :: "intr_status \<Rightarrow> lock \<Rightarrow> sched \<Rightarrow> fatal + (bool \<times> lock \<times> sched)" where
  "lock_acquire_resume old_status plock s = lock_after_down plock (sema_down_finish old_status (semaphore plock) s)"

definition lock_release :: "lock \<Rightarrow> sched \<Rightarrow> fatal + (lock \<times> sched)" where
  "lock_release plock s =
     (if holder plock \<noteq> Some (cur s) then Inl (ASSERT_failed ''plock->holder == running_thread()'')
      else if 1 < holder_repeat_nr plock then Inr (plock\<lparr>holder_repeat_nr := holder_repeat_nr plock - 1\<rparr>, s)
      else if holder_repeat_nr plock \<noteq> 1 then Inl (ASSERT_failed ''plock->holder_repeat_nr == 1'')
      else
        (case sema_up (semaphore plock) s of
           Inl e \<Rightarrow> Inl e
         | Inr (psema, s1) \<Rightarrow> Inr (plock\<lparr>holder := None, holder_repeat_nr := 0, semaphore := psema\<rparr>, s1)))"

subsection \<open>Lemmas\<close>

text \<open>A task that blocks while another task is ready hands the processor to the head of the ready queue.\<close>

lemma thread_block_switch:
  assumes inv: "sched_inv s" and blk: "blocked_status stat" and ne: "ready s \<noteq> []"
  shows "\<exists>s'. thread_block stat s = Inr s' \<and> sched_inv s' \<and> status (tasks s' (cur s)) = stat \<and>
              cur s' = hd (ready s) \<and> ready s' = tl (ready s) \<and> intr s' = intr s \<and> all_tasks s' = all_tasks s"
proof -
  note C = sched_inv_cur [OF inv]
  have hd: "hd (ready s) \<noteq> cur s" using C(3) ne by (cases "ready s") auto
  have st: "stat \<noteq> TASK_RUNNING" using blk by (auto simp: blocked_status_def)
  define s' where "s' = (upd_task (hd (ready s)) (\<lambda>t. t\<lparr>status := TASK_RUNNING\<rparr>)
     ((upd_task (cur s) (\<lambda>t. t\<lparr>status := stat\<rparr>) (s\<lparr>intr := INTR_OFF\<rparr>))\<lparr>ready := tl (ready s)\<rparr>))
     \<lparr>cur := hd (ready s), intr := intr s\<rparr>"
  have e: "thread_block stat s = Inr s'"
    using blk st ne
    by (simp add: thread_block_def schedule_def Let_def intr_disable_eq intr_get_status_def list_empty_def
                  intr_set_status_snd s'_def)
  obtain s'' where "thread_block stat s = Inr s''" "sched_inv s''" using thread_block_inv [OF inv blk] by blast
  then have "sched_inv s'" using e by simp
  then show ?thesis using e hd by (simp add: s'_def)
qed

lemma sema_down_take:
  assumes "sema_value psema = 1"
  shows "sema_down psema s = Inr (True, psema\<lparr>sema_value := 0\<rparr>, s)"
  using assms by (simp add: sema_down_def sema_down_finish_def sema_down_step_def intr_disable_eq intr_set_status_snd)

lemma sema_up_none:
  assumes "sema_value psema = 0" and "waiters psema = []"
  shows "sema_up psema s = Inr (psema\<lparr>sema_value := 1\<rparr>, s)"
  using assms by (simp add: sema_up_def intr_disable_eq intr_set_status_snd list_empty_def)

lemma sema_up_wake:
  assumes inv: "sched_inv s" and v: "sema_value psema = 0" and w: "waiters psema = t # ws"
    and t: "t \<in> set (all_tasks s)" and blk: "blocked_status (status (tasks s t))"
  shows "\<exists>s'. sema_up psema s = Inr (psema\<lparr>waiters := ws, sema_value := 1\<rparr>, s') \<and> sched_inv s' \<and>
              ready s' = t # ready s \<and> status (tasks s' t) = TASK_READY \<and> cur s' = cur s \<and> intr s' = intr s \<and>
              all_tasks s' = all_tasks s"
proof -
  define s1 where "s1 = s\<lparr>intr := INTR_OFF\<rparr>"
  have i1: "sched_inv s1" using inv by (simp add: s1_def)
  have p1: "sched_pre s1" using i1 by (simp add: sched_inv_def)
  have t1: "t \<in> set (all_tasks s1)" "blocked_status (status (tasks s1 t))" using t blk by (simp_all add: s1_def)
  define s2 where "s2 = upd_task t (\<lambda>x. x\<lparr>status := TASK_READY\<rparr>) (s1\<lparr>ready := t # ready s1\<rparr>)"
  note U = thread_unblock_pre [OF p1 t1, folded s2_def]
  obtain s2' where "thread_unblock t s1 = Inr s2'" "sched_inv s2'" using thread_unblock_inv [OF i1 t1] by blast
  then have i2: "sched_inv s2" using U(1) by simp
  have "sema_up psema s = Inr (psema\<lparr>waiters := ws, sema_value := 1\<rparr>, s2\<lparr>intr := intr s\<rparr>)"
    using v w U(1) by (simp add: sema_up_def intr_disable_eq intr_set_status_snd list_empty_def s1_def)
  moreover have "sched_inv (s2\<lparr>intr := intr s\<rparr>)" using i2 by simp
  ultimately show ?thesis by (simp add: s2_def s1_def)
qed

lemma lock_acquire_free:
  assumes "holder plock = None" "holder_repeat_nr plock = 0" "sema_value (semaphore plock) = 1"
  shows "lock_acquire plock s = Inr (True, plock\<lparr>semaphore := (semaphore plock)\<lparr>sema_value := 0\<rparr>,
                                                 holder := Some (cur s), holder_repeat_nr := 1\<rparr>, s)"
  using assms by (simp add: lock_acquire_def lock_after_down_def lock_take_def sema_down_take)

lemma lock_release_last:
  assumes "holder plock = Some (cur s)" "holder_repeat_nr plock = 1" "sema_value (semaphore plock) = 0"
    "waiters (semaphore plock) = []"
  shows "lock_release plock s = Inr (plock\<lparr>holder := None, holder_repeat_nr := 0,
                                            semaphore := (semaphore plock)\<lparr>sema_value := 1\<rparr>\<rparr>, s)"
  using assms by (simp add: lock_release_def sema_up_none)


subsection \<open>Properties of semaphores and locks\<close>

text \<open>
  C32. \<open>sema_down\<close> on a semaphore of value 0, by a task that is not already waiting on
  it while another task is ready, appends the caller to the tail of the waiters queue,
  blocks it and runs the head of the ready queue; the scheduler state stays well formed.
\<close>

theorem sema_down_blocks:
  assumes inv: "sched_inv s" and v: "sema_value psema = 0" and nw: "cur s \<notin> set (waiters psema)"
    and ne: "ready s \<noteq> []"
  shows "\<exists>s'. sema_down psema s = Inr (False, psema\<lparr>waiters := waiters psema @ [cur s]\<rparr>, s') \<and> sched_inv s' \<and>
              status (tasks s' (cur s)) = TASK_BLOCKED \<and> cur s' = hd (ready s) \<and> ready s' = tl (ready s) \<and>
              intr s' = INTR_OFF \<and> all_tasks s' = all_tasks s"
proof -
  have i1: "sched_inv (s\<lparr>intr := INTR_OFF\<rparr>)" using inv by simp
  obtain s' where B: "thread_block TASK_BLOCKED (s\<lparr>intr := INTR_OFF\<rparr>) = Inr s'" "sched_inv s'"
      "status (tasks s' (cur s)) = TASK_BLOCKED" "cur s' = hd (ready s)" "ready s' = tl (ready s)"
      "intr s' = INTR_OFF" "all_tasks s' = all_tasks s"
    using thread_block_switch [OF i1 _ ] ne by (fastforce simp: blocked_status_def)
  have "sema_down psema s = Inr (False, psema\<lparr>waiters := waiters psema @ [cur s]\<rparr>, s')"
    using v nw B(1) by (simp add: sema_down_def sema_down_finish_def sema_down_step_def intr_disable_eq
                                  elem_find_def list_append_def)
  then show ?thesis using B by blast
qed


theorem sema_down_blocks_witness:
  "\<exists>s'. sema_down \<lparr>sema_value = 0, waiters = []\<rparr> ex_boot = Inr (False, \<lparr>sema_value = 0, waiters = [0xc009e000]\<rparr>, s') \<and>
        sched_inv s' \<and> status (tasks s' 0xc009e000) = TASK_BLOCKED \<and> cur s' = 0xc0101000 \<and> ready s' = [] \<and>
        intr s' = INTR_OFF \<and> all_tasks s' = [0xc009e000, 0xc0101000]"
  using sema_down_blocks [OF ex_boot_inv, of "\<lparr>sema_value = 0, waiters = []\<rparr>"] by (simp add: ex_boot_fields)

text \<open>
  C33. Waiters are woken first come, first served: \<open>sema_up\<close> on a semaphore of value 0
  unblocks the head of its waiters queue (pushing it at the head of the ready queue),
  removes it from the waiters and sets the value to 1; the caller keeps running.
\<close>

theorem sema_up_wakes_first:
  assumes "sched_inv s" and "sema_value psema = 0" and "waiters psema = t # ws"
    and "t \<in> set (all_tasks s)" and "blocked_status (status (tasks s t))"
  shows "\<exists>s'. sema_up psema s = Inr (psema\<lparr>waiters := ws, sema_value := 1\<rparr>, s') \<and> sched_inv s' \<and>
              ready s' = t # ready s \<and> status (tasks s' t) = TASK_READY \<and> cur s' = cur s"
  using sema_up_wake [OF assms] by blast

lemma ex_blocked_fields:
  "sched_inv ex_blocked" "all_tasks ex_blocked = [0xc009e000, 0xc0101000]" "ready ex_blocked = []"
  "cur ex_blocked = 0xc0101000" "status (tasks ex_blocked 0xc009e000) = TASK_BLOCKED"
  by (simp_all add: ex_blocked_eq ex_boot_eq sched_eval)

theorem sema_up_wakes_first_witness:
  "\<exists>s'. sema_up \<lparr>sema_value = 0, waiters = [0xc009e000]\<rparr> ex_blocked = Inr (\<lparr>sema_value = 1, waiters = []\<rparr>, s') \<and>
        sched_inv s' \<and> ready s' = [0xc009e000] \<and> status (tasks s' 0xc009e000) = TASK_READY \<and> cur s' = 0xc0101000"
  using sema_up_wakes_first [OF ex_blocked_fields(1), of "\<lparr>sema_value = 0, waiters = [0xc009e000]\<rparr>" "0xc009e000" "[]"]
  by (simp add: ex_blocked_fields blocked_status_def)

text \<open>
  C34. The woken waiter can be overtaken: after \<open>sema_up\<close> wakes the head of the waiters
  queue, the task that called it still runs and its next \<open>sema_down\<close> takes the
  semaphore at once. The woken task is ready but no longer queued on the semaphore; when
  it runs it finds the value 0 again and queues itself at the tail (C32), behind the
  tasks that were waiting after it.
\<close>

theorem sema_woken_overtaken:
  assumes "sched_inv s" and "sema_value psema = 0" and "waiters psema = t # ws"
    and "t \<in> set (all_tasks s)" and "blocked_status (status (tasks s t))"
  shows "\<exists>psema1 s1. sema_up psema s = Inr (psema1, s1) \<and>
           sema_down psema1 s1 = Inr (True, psema\<lparr>waiters := ws, sema_value := 0\<rparr>, s1) \<and>
           cur s1 = cur s \<and> status (tasks s1 t) = TASK_READY"
proof -
  obtain s1 where U: "sema_up psema s = Inr (psema\<lparr>waiters := ws, sema_value := 1\<rparr>, s1)" "cur s1 = cur s"
      "status (tasks s1 t) = TASK_READY"
    using sema_up_wake [OF assms] by blast
  have "sema_down (psema\<lparr>waiters := ws, sema_value := 1\<rparr>) s1 = Inr (True, psema\<lparr>waiters := ws, sema_value := 0\<rparr>, s1)"
    using sema_down_take [of "psema\<lparr>waiters := ws, sema_value := 1\<rparr>" s1] by simp
  then show ?thesis using U by blast
qed

theorem sema_woken_overtaken_witness:
  "\<exists>psema1 s1. sema_up \<lparr>sema_value = 0, waiters = [0xc009e000]\<rparr> ex_blocked = Inr (psema1, s1) \<and>
     sema_down psema1 s1 = Inr (True, \<lparr>sema_value = 0, waiters = []\<rparr>, s1) \<and>
     cur s1 = 0xc0101000 \<and> status (tasks s1 0xc009e000) = TASK_READY"
  using sema_woken_overtaken [OF ex_blocked_fields(1), of "\<lparr>sema_value = 0, waiters = [0xc009e000]\<rparr>" "0xc009e000" "[]"]
  by (simp add: ex_blocked_fields blocked_status_def)

text \<open>
  C35. A free lock (\<open>lock_init\<close>'s state) taken by \<open>lock_acquire\<close> belongs to the running
  task with count 1 and semaphore value 0, without blocking; \<open>lock_release\<close> by the same
  task returns the lock and the scheduler state to what they were.
\<close>

theorem lock_acquire_release_free:
  assumes "holder plock = None" "holder_repeat_nr plock = 0" "sema_value (semaphore plock) = 1"
    "waiters (semaphore plock) = []"
  shows "\<exists>plock1. lock_acquire plock s = Inr (True, plock1, s) \<and> holder plock1 = Some (cur s) \<and>
           holder_repeat_nr plock1 = 1 \<and> sema_value (semaphore plock1) = 0 \<and> lock_release plock1 s = Inr (plock, s)"
proof -
  have "lock_release (plock\<lparr>semaphore := (semaphore plock)\<lparr>sema_value := 0\<rparr>, holder := Some (cur s), holder_repeat_nr := 1\<rparr>) s
        = Inr (plock, s)"
    using assms by (simp add: lock_release_last)
  then show ?thesis using lock_acquire_free [OF assms(1-3), of s] by simp
qed

theorem lock_acquire_release_free_witness:
  "\<exists>plock1. lock_acquire lock_init ex_boot = Inr (True, plock1, ex_boot) \<and> holder plock1 = Some 0xc009e000 \<and>
     holder_repeat_nr plock1 = 1 \<and> sema_value (semaphore plock1) = 0 \<and> lock_release plock1 ex_boot = Inr (lock_init, ex_boot)"
  using lock_acquire_release_free [of lock_init ex_boot] by (simp add: lock_init_def sema_init_def ex_boot_fields)

text \<open>
  Locks are reentrant: the holder's \<open>lock_acquire\<close> only increments the count, and
  the matching \<open>lock_release\<close> restores the lock, without touching the semaphore or the
  scheduler.
\<close>

theorem lock_reentrant_roundtrip:
  assumes "holder plock = Some (cur s)" and "0 < holder_repeat_nr plock" and "holder_repeat_nr plock < 0xffffffff"
  shows "lock_acquire plock s = Inr (True, plock\<lparr>holder_repeat_nr := holder_repeat_nr plock + 1\<rparr>, s) \<and>
         lock_release (plock\<lparr>holder_repeat_nr := holder_repeat_nr plock + 1\<rparr>) s = Inr (plock, s)"
proof -
  have x: "unat (holder_repeat_nr plock) < 4294967295" "0 < unat (holder_repeat_nr plock)"
    using assms(2,3) by (simp_all add: word_less_nat_alt)
  then have "unat (holder_repeat_nr plock + 1) = unat (holder_repeat_nr plock) + 1"
    by (simp add: unat_word_ariths)
  then have "1 < holder_repeat_nr plock + 1" using x(2) by (simp add: word_less_nat_alt)
  then show ?thesis using assms(1) by (simp add: lock_acquire_def lock_release_def)
qed

theorem lock_reentrant_roundtrip_witness:
  "lock_acquire \<lparr>holder = Some 0xc009e000, holder_repeat_nr = 2, semaphore = \<lparr>sema_value = 0, waiters = []\<rparr>\<rparr> ex_boot =
     Inr (True, \<lparr>holder = Some 0xc009e000, holder_repeat_nr = 3, semaphore = \<lparr>sema_value = 0, waiters = []\<rparr>\<rparr>, ex_boot) \<and>
   lock_release \<lparr>holder = Some 0xc009e000, holder_repeat_nr = 3, semaphore = \<lparr>sema_value = 0, waiters = []\<rparr>\<rparr> ex_boot =
     Inr (\<lparr>holder = Some 0xc009e000, holder_repeat_nr = 2, semaphore = \<lparr>sema_value = 0, waiters = []\<rparr>\<rparr>, ex_boot)"
  using lock_reentrant_roundtrip [of "\<lparr>holder = Some 0xc009e000, holder_repeat_nr = 2, semaphore = \<lparr>sema_value = 0, waiters = []\<rparr>\<rparr>" ex_boot]
  by (simp add: ex_boot_fields)

text \<open>Releasing a lock the running task does not hold is fatal.\<close>

theorem lock_release_not_holder:
  assumes "holder plock \<noteq> Some (cur s)"
  shows "lock_release plock s = Inl (ASSERT_failed ''plock->holder == running_thread()'')"
  using assms by (simp add: lock_release_def)

theorem lock_release_not_holder_witness:
  "lock_release lock_init ex_boot = Inl (ASSERT_failed ''plock->holder == running_thread()'')"
  using lock_release_not_holder [of lock_init ex_boot] by (simp add: lock_init_def)

end
