(* ===== verification/Ioqueue.thy ===== *)
theory Ioqueue
  imports Sync "HOL-Library.Signed_Division"
begin

text \<open>
  The circular I/O buffer of \<open>src/device/ioqueue.c\<close> (the keyboard buffer): 64 bytes, a
  write index \<open>head\<close> and a read index \<open>tail\<close> (\<open>int32_t\<close>; kept in \<open>[0, 64)\<close>, where
  the signed remainder \<open>smod\<close> of C's \<open>%\<close> and an \<open>int\<close> agree with the 32-bit value), the
  lock and the waiting producer and consumer. \<open>ioqueue_getchar\<close> and
  \<open>ioqueue_putchar\<close> are split like \<open>sema_down\<close> at their suspension points: the loop
  returns \<open>None\<close> when the caller blocked (in \<open>lock_acquire\<close> or in \<open>ioqueue_wait\<close>), and
  the \<open>_woken\<close> functions are what a task woken in \<open>ioqueue_wait\<close> executes (release the
  lock, test again). The abstraction \<open>ioq_contents\<close> reads the bytes from \<open>tail\<close> to
  \<open>head\<close>.
\<close>

section \<open>The I/O queue\<close>

record ioqueue =
  ioq_lock :: lock
  producer :: "tid option"
  consumer :: "tid option"
  buf :: "char list"
  head :: int
  tail :: int

definition bufsize :: int where "bufsize = 64"

definition ioqueue_init :: "ioqueue \<Rightarrow> ioqueue" where
  "ioqueue_init ioq = ioq\<lparr>ioq_lock := lock_init, producer := None, head := 0, tail := 0\<rparr>"

definition next_pos :: "int \<Rightarrow> int" where
  "next_pos pos = (pos + 1) smod bufsize"

definition ioqueue_full :: "ioqueue \<Rightarrow> sched \<Rightarrow> fatal + bool" where
  "ioqueue_full ioq s =
     (if intr_get_status s \<noteq> INTR_OFF then Inl (ASSERT_failed ''intr_get_status() == INTR_OFF'')
      else Inr (next_pos (head ioq) = tail ioq))"

definition ioqueue_empty :: "ioqueue \<Rightarrow> sched \<Rightarrow> fatal + bool" where
  "ioqueue_empty ioq s =
     (if intr_get_status s \<noteq> INTR_OFF then Inl (ASSERT_failed ''intr_get_status() == INTR_OFF'')
      else Inr (head ioq = tail ioq))"

text \<open>\<open>ioqueue_wait\<close> and \<open>wakeup\<close> act on the field the pointer \<open>waiter\<close> designates;
  they take its value and return the new one.\<close>

definition ioqueue_wait :: "tid option \<Rightarrow> sched \<Rightarrow> fatal + (tid option \<times> sched)" where
  "ioqueue_wait waiter s =
     (if waiter \<noteq> None then Inl (ASSERT_failed ''*waiter == NULL && waiter != NULL'')
      else (case thread_block TASK_BLOCKED s of Inl e \<Rightarrow> Inl e | Inr s1 \<Rightarrow> Inr (Some (cur s), s1)))"

definition wakeup :: "tid option \<Rightarrow> sched \<Rightarrow> fatal + (tid option \<times> sched)" where
  "wakeup waiter s =
     (case waiter of
        None \<Rightarrow> Inl (ASSERT_failed ''*waiter != NULL'')
      | Some t \<Rightarrow> (case thread_unblock t s of Inl e \<Rightarrow> Inl e | Inr s1 \<Rightarrow> Inr (None, s1)))"

text \<open>The loop body of both functions: take the lock, record the caller as the waiter
  and block. \<open>None\<close> in the result: the caller is suspended.\<close>

definition ioqueue_block ::
  "(ioqueue \<Rightarrow> tid option) \<Rightarrow> (tid option \<Rightarrow> ioqueue \<Rightarrow> ioqueue) \<Rightarrow> ioqueue \<Rightarrow> sched \<Rightarrow> fatal + (ioqueue \<times> sched)" where
  "ioqueue_block get_w set_w ioq s =
     (case lock_acquire (ioq_lock ioq) s of
        Inl e \<Rightarrow> Inl e
      | Inr (False, l, s1) \<Rightarrow> Inr (ioq\<lparr>ioq_lock := l\<rparr>, s1)
      | Inr (True, l, s1) \<Rightarrow>
          (case ioqueue_wait (get_w ioq) s1 of
             Inl e \<Rightarrow> Inl e
           | Inr (w, s2) \<Rightarrow> Inr (set_w w (ioq\<lparr>ioq_lock := l\<rparr>), s2)))"

definition ioqueue_take :: "ioqueue \<Rightarrow> sched \<Rightarrow> fatal + (char \<times> ioqueue \<times> sched)" where
  "ioqueue_take ioq s =
     (let byte = buf ioq ! nat (tail ioq);
          ioq1 = ioq\<lparr>tail := next_pos (tail ioq)\<rparr> in
      if producer ioq1 \<noteq> None then
        (case wakeup (producer ioq1) s of Inl e \<Rightarrow> Inl e | Inr (w, s1) \<Rightarrow> Inr (byte, ioq1\<lparr>producer := w\<rparr>, s1))
      else Inr (byte, ioq1, s))"

definition ioqueue_getchar_loop :: "ioqueue \<Rightarrow> sched \<Rightarrow> fatal + (char option \<times> ioqueue \<times> sched)" where
  "ioqueue_getchar_loop ioq s =
     (case ioqueue_empty ioq s of
        Inl e \<Rightarrow> Inl e
      | Inr True \<Rightarrow>
          (case ioqueue_block consumer (\<lambda>w q. q\<lparr>consumer := w\<rparr>) ioq s of
             Inl e \<Rightarrow> Inl e | Inr (ioq1, s1) \<Rightarrow> Inr (None, ioq1, s1))
      | Inr False \<Rightarrow>
          (case ioqueue_take ioq s of Inl e \<Rightarrow> Inl e | Inr (byte, ioq1, s1) \<Rightarrow> Inr (Some byte, ioq1, s1)))"

definition ioqueue_getchar :: "ioqueue \<Rightarrow> sched \<Rightarrow> fatal + (char option \<times> ioqueue \<times> sched)" where
  "ioqueue_getchar ioq s =
     (if intr_get_status s \<noteq> INTR_OFF then Inl (ASSERT_failed ''intr_get_status() == INTR_OFF'')
      else ioqueue_getchar_loop ioq s)"

definition ioqueue_getchar_woken :: "ioqueue \<Rightarrow> sched \<Rightarrow> fatal + (char option \<times> ioqueue \<times> sched)" where
  "ioqueue_getchar_woken ioq s =
     (case lock_release (ioq_lock ioq) s of
        Inl e \<Rightarrow> Inl e
      | Inr (l, s1) \<Rightarrow> ioqueue_getchar_loop (ioq\<lparr>ioq_lock := l\<rparr>) s1)"

definition ioqueue_put :: "ioqueue \<Rightarrow> char \<Rightarrow> sched \<Rightarrow> fatal + (ioqueue \<times> sched)" where
  "ioqueue_put ioq byte s =
     (let ioq1 = ioq\<lparr>buf := (buf ioq)[nat (head ioq) := byte]\<rparr>;
          ioq2 = ioq1\<lparr>head := next_pos (head ioq1)\<rparr> in
      if consumer ioq2 \<noteq> None then
        (case wakeup (consumer ioq2) s of Inl e \<Rightarrow> Inl e | Inr (w, s1) \<Rightarrow> Inr (ioq2\<lparr>consumer := w\<rparr>, s1))
      else Inr (ioq2, s))"

definition ioqueue_putchar_loop :: "ioqueue \<Rightarrow> char \<Rightarrow> sched \<Rightarrow> fatal + (bool \<times> ioqueue \<times> sched)" where
  "ioqueue_putchar_loop ioq byte s =
     (case ioqueue_full ioq s of
        Inl e \<Rightarrow> Inl e
      | Inr True \<Rightarrow>
          (case ioqueue_block producer (\<lambda>w q. q\<lparr>producer := w\<rparr>) ioq s of
             Inl e \<Rightarrow> Inl e | Inr (ioq1, s1) \<Rightarrow> Inr (False, ioq1, s1))
      | Inr False \<Rightarrow>
          (case ioqueue_put ioq byte s of Inl e \<Rightarrow> Inl e | Inr (ioq1, s1) \<Rightarrow> Inr (True, ioq1, s1)))"

definition ioqueue_putchar :: "ioqueue \<Rightarrow> char \<Rightarrow> sched \<Rightarrow> fatal + (bool \<times> ioqueue \<times> sched)" where
  "ioqueue_putchar ioq byte s =
     (if intr_get_status s \<noteq> INTR_OFF then Inl (ASSERT_failed ''intr_get_status() == INTR_OFF'')
      else ioqueue_putchar_loop ioq byte s)"

definition ioqueue_putchar_woken :: "ioqueue \<Rightarrow> char \<Rightarrow> sched \<Rightarrow> fatal + (bool \<times> ioqueue \<times> sched)" where
  "ioqueue_putchar_woken ioq byte s =
     (case lock_release (ioq_lock ioq) s of
        Inl e \<Rightarrow> Inl e
      | Inr (l, s1) \<Rightarrow> ioqueue_putchar_loop (ioq\<lparr>ioq_lock := l\<rparr>) byte s1)"

subsection \<open>Abstraction\<close>

definition ioq_wf :: "ioqueue \<Rightarrow> bool" where
  "ioq_wf ioq \<longleftrightarrow> length (buf ioq) = 64 \<and> 0 \<le> head ioq \<and> head ioq < 64 \<and> 0 \<le> tail ioq \<and> tail ioq < 64"

definition ioq_contents :: "ioqueue \<Rightarrow> char list" where
  "ioq_contents ioq = map (\<lambda>i. buf ioq ! nat ((tail ioq + int i) mod 64)) [0..<nat ((head ioq - tail ioq) mod 64)]"

text \<open>An empty queue with a page of \<open>a\<close>s as its stale contents.\<close>

definition ex_ioq :: ioqueue where
  "ex_ioq = \<lparr>ioq_lock = lock_init, producer = None, consumer = None, buf = replicate 64 (CHR ''a''), head = 0, tail = 0\<rparr>"

subsection \<open>Lemmas\<close>

lemma next_pos_nonneg: "0 \<le> pos \<Longrightarrow> next_pos pos = (pos + 1) mod 64"
  by (simp add: next_pos_def bufsize_def smod_int_alt_def sgn_if)

lemma ioq_len: "length (ioq_contents ioq) = nat ((head ioq - tail ioq) mod 64)"
  by (simp add: ioq_contents_def)

lemma mod64_cases:
  fixes x :: int
  assumes "-64 \<le> x" "x < 128"
  shows "x mod 64 = (if x < 0 then x + 64 else if x < 64 then x else x - 64)"
proof -
  consider "x < 0" | "0 \<le> x" "x < 64" | "64 \<le> x" by linarith
  then show ?thesis
  proof cases
    case 1
    have "x mod 64 = (x + 64) mod 64" by simp
    also have "\<dots> = x + 64" using 1 assms by (intro mod_pos_pos_trivial) simp_all
    finally show ?thesis using 1 by simp
  next
    case 2
    then show ?thesis by simp
  next
    case 3
    have "x mod 64 = (x - 64) mod 64" by simp
    also have "\<dots> = x - 64" using 3 assms by (intro mod_pos_pos_trivial) simp_all
    finally show ?thesis using 3 by simp
  qed
qed

lemma ring_index_head:
  fixes h t :: int
  assumes "0 \<le> h" "h < 64" "0 \<le> t" "t < 64"
  shows "(t + (h - t) mod 64) mod 64 = h"
  using assms by (simp add: mod64_cases)

lemma ring_index_before:
  fixes h t i :: int
  assumes "0 \<le> h" "h < 64" "0 \<le> t" "t < 64" "0 \<le> i" "i < (h - t) mod 64"
  shows "(t + i) mod 64 \<noteq> h"
  using assms by (simp add: mod64_cases split: if_splits)

lemma ring_count_put:
  fixes h t :: int
  assumes "0 \<le> h" "h < 64" "0 \<le> t" "t < 64" "(h + 1) mod 64 \<noteq> t"
  shows "((h + 1) mod 64 - t) mod 64 = (h - t) mod 64 + 1"
  using assms by (simp add: mod64_cases split: if_splits)

lemma ring_count_get:
  fixes h t :: int
  assumes "0 \<le> h" "h < 64" "0 \<le> t" "t < 64" "h \<noteq> t"
  shows "(h - (t + 1) mod 64) mod 64 = (h - t) mod 64 - 1"
  using assms by (simp add: mod64_cases split: if_splits)


lemma ring_full:
  fixes h t :: int
  assumes "0 \<le> h" "h < 64" "0 \<le> t" "t < 64"
  shows "((h + 1) mod 64 = t) = ((h - t) mod 64 = 63)"
  using assms by (simp add: mod64_cases split: if_splits; linarith)

lemma ioq_full_iff:
  assumes "ioq_wf ioq"
  shows "(next_pos (head ioq) = tail ioq) = (length (ioq_contents ioq) = 63)"
proof -
  have "0 \<le> (head ioq - tail ioq) mod 64" by simp
  then have "(length (ioq_contents ioq) = 63) = ((head ioq - tail ioq) mod 64 = 63)" by (simp add: ioq_len nat_eq_iff)
  then show ?thesis using assms ring_full [of "head ioq" "tail ioq"] by (simp add: ioq_wf_def next_pos_nonneg)
qed

lemma ioq_empty_iff:
  assumes "ioq_wf ioq"
  shows "(head ioq = tail ioq) = (ioq_contents ioq = [])"
proof -
  have "((head ioq - tail ioq) mod 64 = 0) = (head ioq = tail ioq)"
    using assms by (simp add: ioq_wf_def mod64_cases split: if_splits)
  moreover have "0 \<le> (head ioq - tail ioq) mod 64" by simp
  ultimately show ?thesis by (auto simp: ioq_contents_def)
qed

lemma ioqueue_put_contents:
  fixes byte :: char
  assumes wf: "ioq_wf ioq" and nf: "next_pos (head ioq) \<noteq> tail ioq" and c: "consumer ioq = None"
  defines "ioq' \<equiv> ioq\<lparr>buf := (buf ioq)[nat (head ioq) := byte], head := (head ioq + 1) mod 64\<rparr>"
  shows "ioqueue_put ioq byte s = Inr (ioq', s)" and "ioq_wf ioq'"
    and "ioq_contents ioq' = ioq_contents ioq @ [byte]"
proof -
  have b: "0 \<le> head ioq" "head ioq < 64" "0 \<le> tail ioq" "tail ioq < 64" "length (buf ioq) = 64"
    using wf by (simp_all add: ioq_wf_def)
  show "ioqueue_put ioq byte s = Inr (ioq', s)" using c b by (simp add: ioqueue_put_def ioq'_def next_pos_nonneg)
  show "ioq_wf ioq'" using b by (simp add: ioq_wf_def ioq'_def)
  define n where "n = (head ioq - tail ioq) mod 64"
  have n: "0 \<le> n" "n < 64" by (simp_all add: n_def)
  have cnt: "(head ioq' - tail ioq') mod 64 = n + 1"
    using ring_count_put [OF b(1-4)] nf b(1) by (simp add: ioq'_def n_def next_pos_nonneg)
  have upt: "[0..<nat (n + 1)] = [0..<nat n] @ [nat n]" using n by (simp add: nat_add_distrib)
  have before: "buf ioq' ! nat ((tail ioq' + int i) mod 64) = buf ioq ! nat ((tail ioq + int i) mod 64)"
    if i: "i \<in> set [0..<nat n]" for i
  proof -
    have "(tail ioq + int i) mod 64 \<noteq> head ioq"
      using ring_index_before [OF b(1-4), of "int i"] i by (simp add: n_def)
    then have "nat ((tail ioq + int i) mod 64) \<noteq> nat (head ioq)" using b(1) by (simp add: nat_eq_iff2)
    then show ?thesis by (simp add: ioq'_def)
  qed
  have last: "buf ioq' ! nat ((tail ioq' + int (nat n)) mod 64) = byte"
    using ring_index_head [OF b(1-4)] n b by (simp add: ioq'_def n_def)
  show "ioq_contents ioq' = ioq_contents ioq @ [byte]"
    unfolding ioq_contents_def cnt upt using before last by (simp add: n_def)
qed


lemma ioqueue_take_contents:
  assumes wf: "ioq_wf ioq" and ne: "head ioq \<noteq> tail ioq" and p: "producer ioq = None"
  defines "ioq' \<equiv> ioq\<lparr>tail := (tail ioq + 1) mod 64\<rparr>"
  shows "ioqueue_take ioq s = Inr (buf ioq ! nat (tail ioq), ioq', s)" and "ioq_wf ioq'"
    and "ioq_contents ioq = buf ioq ! nat (tail ioq) # ioq_contents ioq'"
proof -
  have b: "0 \<le> head ioq" "head ioq < 64" "0 \<le> tail ioq" "tail ioq < 64" "length (buf ioq) = 64"
    using wf by (simp_all add: ioq_wf_def)
  show "ioqueue_take ioq s = Inr (buf ioq ! nat (tail ioq), ioq', s)"
    using p b by (simp add: ioqueue_take_def ioq'_def next_pos_nonneg)
  show "ioq_wf ioq'" using b by (simp add: ioq_wf_def ioq'_def)
  define n where "n = (head ioq - tail ioq) mod 64"
  have n: "0 < n" "n < 64"
    using ne b by (simp_all add: n_def mod64_cases split: if_splits)
  have cnt: "(head ioq' - tail ioq') mod 64 = n - 1"
    using ring_count_get [OF b(1-4) ne] by (simp add: ioq'_def n_def)
  have upt: "[0..<nat n] = 0 # map Suc [0..<nat (n - 1)]"
    using n by (simp add: upt_conv_Cons map_Suc_upt nat_diff_distrib)
  have "((tail ioq + 1) mod 64 + int i) mod 64 = (tail ioq + int (Suc i)) mod 64" for i
    by (simp add: mod_add_left_eq add.assoc)
  then show "ioq_contents ioq = buf ioq ! nat (tail ioq) # ioq_contents ioq'"
    unfolding ioq_contents_def cnt n_def [symmetric] upt using b(3,4) by (simp add: ioq'_def)
qed


subsection \<open>Properties of the I/O queue\<close>

text \<open>
  C38. \<open>ioqueue_putchar\<close> on a well-formed queue holding fewer than 63 bytes, with no
  waiting consumer, appends the byte to the queue's contents without blocking and keeps
  the queue well formed.
\<close>

theorem ioqueue_putchar_appends:
  assumes "ioq_wf ioq" and "intr s = INTR_OFF" and "length (ioq_contents ioq) < 63" and "consumer ioq = None"
  shows "\<exists>ioq'. ioqueue_putchar ioq byte s = Inr (True, ioq', s) \<and> ioq_wf ioq' \<and>
                ioq_contents ioq' = ioq_contents ioq @ [byte]"
proof -
  have nf: "next_pos (head ioq) \<noteq> tail ioq" using ioq_full_iff [OF assms(1)] assms(3) by simp
  note P = ioqueue_put_contents [OF assms(1) nf assms(4)]
  show ?thesis using assms(2) nf P
    by (simp add: ioqueue_putchar_def ioqueue_putchar_loop_def ioqueue_full_def intr_get_status_def)
qed

theorem ioqueue_putchar_appends_witness:
  "\<exists>ioq'. ioqueue_putchar ex_ioq (CHR ''k'') (ex_boot\<lparr>intr := INTR_OFF\<rparr>) = Inr (True, ioq', ex_boot\<lparr>intr := INTR_OFF\<rparr>) \<and>
     ioq_wf ioq' \<and> ioq_contents ioq' = ''k''"
proof -
  have "ioq_wf ex_ioq" "ioq_contents ex_ioq = []" by (simp_all add: ex_ioq_def ioq_wf_def ioq_contents_def)
  then show ?thesis using ioqueue_putchar_appends [of ex_ioq "ex_boot\<lparr>intr := INTR_OFF\<rparr>" "CHR ''k''"]
    by (simp add: ex_ioq_def)
qed

text \<open>
  C39. \<open>ioqueue_getchar\<close> on a well-formed non-empty queue, with no waiting producer,
  returns the oldest byte and removes it from the contents without blocking: with C38 the
  buffer is a FIFO queue of at most 63 bytes.
\<close>

theorem ioqueue_getchar_fifo:
  assumes "ioq_wf ioq" and "intr s = INTR_OFF" and "ioq_contents ioq = c # cs" and "producer ioq = None"
  shows "\<exists>ioq'. ioqueue_getchar ioq s = Inr (Some c, ioq', s) \<and> ioq_wf ioq' \<and> ioq_contents ioq' = cs"
proof -
  have ne: "head ioq \<noteq> tail ioq" using ioq_empty_iff [OF assms(1)] assms(3) by simp
  note T = ioqueue_take_contents [OF assms(1) ne assms(4)]
  show ?thesis using assms(2,3) ne T
    by (simp add: ioqueue_getchar_def ioqueue_getchar_loop_def ioqueue_empty_def intr_get_status_def)
qed

theorem ioqueue_getchar_fifo_witness:
  "\<exists>ioq'. ioqueue_getchar (ex_ioq\<lparr>buf := ''k'' @ replicate 63 (CHR ''a''), head := 1\<rparr>) (ex_boot\<lparr>intr := INTR_OFF\<rparr>) =
      Inr (Some (CHR ''k''), ioq', ex_boot\<lparr>intr := INTR_OFF\<rparr>) \<and> ioq_wf ioq' \<and> ioq_contents ioq' = []"
proof -
  have "ioq_wf (ex_ioq\<lparr>buf := ''k'' @ replicate 63 (CHR ''a''), head := 1\<rparr>)"
       "ioq_contents (ex_ioq\<lparr>buf := ''k'' @ replicate 63 (CHR ''a''), head := 1\<rparr>) = [CHR ''k'']"
    by (simp_all add: ex_ioq_def ioq_wf_def ioq_contents_def)
  then show ?thesis
    using ioqueue_getchar_fifo [of "ex_ioq\<lparr>buf := ''k'' @ replicate 63 (CHR ''a''), head := 1\<rparr>" "ex_boot\<lparr>intr := INTR_OFF\<rparr>" "CHR ''k''" "[]"]
    by (simp add: ex_ioq_def)
qed

text \<open>
  With interrupts off, \<open>ioqueue_full\<close> holds exactly when the queue holds 63 bytes
  and \<open>ioqueue_empty\<close> exactly when it holds none; a well-formed queue never holds more
  than 63 bytes (one of the 64 slots always stays unused).
\<close>

theorem ioqueue_full_empty:
  assumes "ioq_wf ioq" and "intr s = INTR_OFF"
  shows "ioqueue_full ioq s = Inr (length (ioq_contents ioq) = 63) \<and> ioqueue_empty ioq s = Inr (ioq_contents ioq = []) \<and>
         length (ioq_contents ioq) \<le> 63"
proof -
  have "(head ioq - tail ioq) mod 64 < 64" by simp
  then have "length (ioq_contents ioq) \<le> 63" by (simp add: ioq_len)
  then show ?thesis using ioq_full_iff [OF assms(1)] ioq_empty_iff [OF assms(1)] assms(2)
    by (simp add: ioqueue_full_def ioqueue_empty_def intr_get_status_def)
qed

theorem ioqueue_full_empty_witness:
  "ioqueue_full ex_ioq (ex_boot\<lparr>intr := INTR_OFF\<rparr>) = Inr False \<and> ioqueue_empty ex_ioq (ex_boot\<lparr>intr := INTR_OFF\<rparr>) = Inr True"
proof -
  have "ioq_wf ex_ioq" "ioq_contents ex_ioq = []" by (simp_all add: ex_ioq_def ioq_wf_def ioq_contents_def)
  then show ?thesis using ioqueue_full_empty [of ex_ioq "ex_boot\<lparr>intr := INTR_OFF\<rparr>"] by simp
qed

end
