(* ===== verification/Keyboard.thy ===== *)
theory Keyboard
  imports Ioqueue
begin

text \<open>
  The keyboard driver of \<open>src/device/keyboard.c\<close>: the scan-code table \<open>keymap\<close>, the
  interrupt handler \<open>intr_keyboard_handler\<close> and \<open>keyboard_init\<close>. The driver's static
  state (the four modifier flags, the \<open>0xe0\<close> prefix flag and the buffer \<open>kbd_buf\<close>) is
  the record \<open>kbd_state\<close>; the handler reads the byte \<open>inb(KBD_BUF_PORT)\<close>, given as its
  argument, and writes characters into \<open>kbd_buf\<close> with \<open>ioqueue_putchar\<close> (Ioqueue), which
  may wake the task waiting in \<open>ioqueue_getchar\<close>. The handler runs as an interrupt gate,
  with interrupts off. The message \<open>put_str("unknown key\n")\<close> goes to the console, which
  is not modelled; \<open>register_handler(0x21, ...)\<close> installs the handler in the interrupt
  table of \<open>interrupt.c\<close> and has no counterpart here: the handler is applied to each
  byte by \<open>kbd_run\<close>, the sequence of keyboard interrupts.
\<close>

section \<open>Driver state and scan codes\<close>

record kbd_state =
  ctrl_status :: bool
  shift_status :: bool
  alt_status :: bool
  caps_lock_status :: bool
  ext_scancode :: bool
  kbd_buf :: ioqueue

abbreviation shift_l_make :: u16 where "shift_l_make \<equiv> 0x2a"
abbreviation shift_r_make :: u16 where "shift_r_make \<equiv> 0x36"
abbreviation alt_l_make :: u16 where "alt_l_make \<equiv> 0x38"
abbreviation alt_r_make :: u16 where "alt_r_make \<equiv> 0xe038"
abbreviation ctrl_l_make :: u16 where "ctrl_l_make \<equiv> 0x1d"
abbreviation ctrl_r_make :: u16 where "ctrl_r_make \<equiv> 0xe01d"
abbreviation caps_lock_make :: u16 where "caps_lock_make \<equiv> 0x3a"

text \<open>\<open>keymap[make_code][shift]\<close>: the characters of the make codes \<open>0x00\<close> to \<open>0x3a\<close>;
  \<open>esc\<close>, \<open>backspace\<close>, \<open>tab\<close> and \<open>enter\<close> are \<open>0x1b\<close>, \<open>0x08\<close>, \<open>0x09\<close> and
  \<open>0x0d\<close>, the modifier keys \<open>char_invisible = 0\<close>.\<close>

definition keymap :: "(char \<times> char) list" where
  "keymap =
     [(CHR 0x00, CHR 0x00),
      (CHR 0x1B, CHR 0x1B),
      (CHR ''1'', CHR 0x21),
      (CHR ''2'', CHR 0x40),
      (CHR ''3'', CHR 0x23),
      (CHR ''4'', CHR 0x24),
      (CHR ''5'', CHR 0x25),
      (CHR ''6'', CHR 0x5E),
      (CHR ''7'', CHR 0x26),
      (CHR ''8'', CHR 0x2A),
      (CHR ''9'', CHR 0x28),
      (CHR ''0'', CHR 0x29),
      (CHR 0x2D, CHR 0x5F),
      (CHR 0x3D, CHR 0x2B),
      (CHR 0x08, CHR 0x08),
      (CHR 0x09, CHR 0x09),
      (CHR ''q'', CHR ''Q''),
      (CHR ''w'', CHR ''W''),
      (CHR ''e'', CHR ''E''),
      (CHR ''r'', CHR ''R''),
      (CHR ''t'', CHR ''T''),
      (CHR ''y'', CHR ''Y''),
      (CHR ''u'', CHR ''U''),
      (CHR ''i'', CHR ''I''),
      (CHR ''o'', CHR ''O''),
      (CHR ''p'', CHR ''P''),
      (CHR 0x5B, CHR 0x7B),
      (CHR 0x5D, CHR 0x7D),
      (CHR 0x0D, CHR 0x0D),
      (CHR 0x00, CHR 0x00),
      (CHR ''a'', CHR ''A''),
      (CHR ''s'', CHR ''S''),
      (CHR ''d'', CHR ''D''),
      (CHR ''f'', CHR ''F''),
      (CHR ''g'', CHR ''G''),
      (CHR ''h'', CHR ''H''),
      (CHR ''j'', CHR ''J''),
      (CHR ''k'', CHR ''K''),
      (CHR ''l'', CHR ''L''),
      (CHR 0x3B, CHR 0x3A),
      (CHR 0x27, CHR 0x22),
      (CHR 0x60, CHR 0x7E),
      (CHR 0x00, CHR 0x00),
      (CHR 0x5C, CHR 0x7C),
      (CHR ''z'', CHR ''Z''),
      (CHR ''x'', CHR ''X''),
      (CHR ''c'', CHR ''C''),
      (CHR ''v'', CHR ''V''),
      (CHR ''b'', CHR ''B''),
      (CHR ''n'', CHR ''N''),
      (CHR ''m'', CHR ''M''),
      (CHR 0x2C, CHR 0x3C),
      (CHR 0x2E, CHR 0x3E),
      (CHR 0x2F, CHR 0x3F),
      (CHR 0x00, CHR 0x00),
      (CHR 0x2A, CHR 0x2A),
      (CHR 0x00, CHR 0x00),
      (CHR 0x20, CHR 0x20),
      (CHR 0x00, CHR 0x00)]"

text \<open>Whether the shifted column is used: digits and punctuation follow Shift alone,
  letters Shift exclusive-or Caps Lock.\<close>

definition key_shift :: "bool \<Rightarrow> bool \<Rightarrow> u16 \<Rightarrow> bool" where
  "key_shift shift_down_last caps_lock_last scancode =
     (if scancode < 0x0e \<or> scancode = 0x29 \<or> scancode = 0x1a \<or> scancode = 0x1b \<or>
         scancode = 0x2b \<or> scancode = 0x27 \<or> scancode = 0x28 \<or> scancode = 0x33 \<or>
         scancode = 0x34 \<or> scancode = 0x35
      then shift_down_last
      else if shift_down_last \<and> caps_lock_last then False
      else if shift_down_last \<or> caps_lock_last then True
      else False)"

section \<open>The interrupt handler\<close>

text \<open>Putting a character into \<open>kbd_buf\<close> when it is not full (lines 190--193). The
  queue is tested first, so \<open>ioqueue_putchar\<close> never waits here; the flag it returns
  (whether the caller was suspended) is therefore not inspected.\<close>

definition kbd_put :: "char \<Rightarrow> kbd_state \<Rightarrow> sched \<Rightarrow> fatal + (kbd_state \<times> sched)" where
  "kbd_put cur_char k s =
     (case ioqueue_full (kbd_buf k) s of
        Inl e \<Rightarrow> Inl e
      | Inr True \<Rightarrow> Inr (k, s)
      | Inr False \<Rightarrow>
          (case ioqueue_putchar (kbd_buf k) cur_char s of
             Inl e \<Rightarrow> Inl e
           | Inr (_, q, s1) \<Rightarrow> Inr (k\<lparr>kbd_buf := q\<rparr>, s1)))"

text \<open>A break code: the released modifier's flag is cleared.\<close>

definition kbd_break :: "u16 \<Rightarrow> kbd_state \<Rightarrow> kbd_state" where
  "kbd_break scancode k =
     (let make_code = scancode AND 0xff7f in
      if make_code = ctrl_l_make \<or> make_code = ctrl_r_make then k\<lparr>ctrl_status := False\<rparr>
      else if make_code = shift_l_make \<or> make_code = shift_r_make then k\<lparr>shift_status := False\<rparr>
      else if make_code = alt_l_make \<or> make_code = alt_r_make then k\<lparr>alt_status := False\<rparr>
      else k)"

text \<open>A make code of the table or of the right Alt and Ctrl keys: the character is looked
  up in the column \<open>shift\<close>; a visible one is put into the buffer (Ctrl+l and Ctrl+u become
  \<open>cur_char - 'a'\<close>), otherwise the modifier's flag is recorded.\<close>

definition kbd_make :: "bool \<Rightarrow> bool \<Rightarrow> bool \<Rightarrow> u16 \<Rightarrow> kbd_state \<Rightarrow> sched \<Rightarrow> fatal + (kbd_state \<times> sched)" where
  "kbd_make ctrl_down_last shift_down_last caps_lock_last scancode k s =
     (let shift = key_shift shift_down_last caps_lock_last scancode;
          scancode = scancode AND 0x00ff;
          index = (ucast scancode :: u8);
          cur_char = (if shift then snd else fst) (keymap ! unat index) in
      if cur_char \<noteq> CHR 0x00 then
        kbd_put (if (ctrl_down_last \<and> cur_char = CHR ''l'') \<or> (ctrl_down_last \<and> cur_char = CHR ''u'')
                 then char_of (of_char cur_char - of_char (CHR ''a'') :: nat) else cur_char) k s
      else if scancode = ctrl_l_make \<or> scancode = ctrl_r_make then Inr (k\<lparr>ctrl_status := True\<rparr>, s)
      else if scancode = shift_l_make \<or> scancode = shift_r_make then Inr (k\<lparr>shift_status := True\<rparr>, s)
      else if scancode = caps_lock_make then Inr (k\<lparr>caps_lock_status := \<not> caps_lock_status k\<rparr>, s)
      else Inr (k, s))"

text \<open>\<open>intr_keyboard_handler\<close> on the byte read from port \<open>0x60\<close>: a \<open>0xe0\<close> prefix is
  recorded and merged into the next code; the unknown codes only print a message.\<close>

definition intr_keyboard_handler :: "u8 \<Rightarrow> kbd_state \<Rightarrow> sched \<Rightarrow> fatal + (kbd_state \<times> sched)" where
  "intr_keyboard_handler inb k s =
     (let ctrl_down_last = ctrl_status k; shift_down_last = shift_status k;
          caps_lock_last = caps_lock_status k; scancode = (ucast inb :: u16) in
      if scancode = 0xe0 then Inr (k\<lparr>ext_scancode := True\<rparr>, s)
      else
        (let scancode = (if ext_scancode k then 0xe000 OR scancode else scancode);
             k = (if ext_scancode k then k\<lparr>ext_scancode := False\<rparr> else k) in
         if scancode AND 0x0080 \<noteq> 0 then Inr (kbd_break scancode k, s)
         else if (0x00 < scancode \<and> scancode < 0x3b) \<or> scancode = alt_r_make \<or> scancode = ctrl_r_make then
           kbd_make ctrl_down_last shift_down_last caps_lock_last scancode k s
         else Inr (k, s)))"

definition keyboard_init :: "kbd_state \<Rightarrow> kbd_state" where
  "keyboard_init k =
     k\<lparr>kbd_buf := ioqueue_init (kbd_buf k), ctrl_status := False, shift_status := False,
       alt_status := False, caps_lock_status := False, ext_scancode := False\<rparr>"

text \<open>A sequence of keyboard interrupts, one per byte, in order.\<close>

fun kbd_run :: "u8 list \<Rightarrow> kbd_state \<Rightarrow> sched \<Rightarrow> fatal + (kbd_state \<times> sched)" where
  "kbd_run [] k s = Inr (k, s)"
| "kbd_run (b # bs) k s = (case intr_keyboard_handler b k s of Inl e \<Rightarrow> Inl e | Inr (k1, s1) \<Rightarrow> kbd_run bs k1 s1)"

text \<open>The context of a keyboard interrupt: a well-formed buffer, interrupts off, a
  well-formed scheduler, and a waiting reader (if any) that is a blocked task.\<close>

definition kbd_ok :: "kbd_state \<Rightarrow> sched \<Rightarrow> bool" where
  "kbd_ok k s \<longleftrightarrow> ioq_wf (kbd_buf k) \<and> intr s = INTR_OFF \<and> sched_inv s \<and>
     (case consumer (kbd_buf k) of None \<Rightarrow> True
      | Some t \<Rightarrow> t \<in> set (all_tasks s) \<and> blocked_status (status (tasks s t)))"

text \<open>The buffer after \<open>ioqueue_putchar\<close> on a queue that is not full.\<close>

definition ioq_push :: "ioqueue \<Rightarrow> char \<Rightarrow> ioqueue" where
  "ioq_push ioq c = ioq\<lparr>buf := (buf ioq)[nat (head ioq) := c], head := (head ioq + 1) mod 64, consumer := None\<rparr>"

text \<open>Example: the driver after \<open>keyboard_init\<close>, with the task \<open>main\<close> of
  \<open>ex_blocked\<close> (Sync) waiting in \<open>ioqueue_getchar\<close> for a key.\<close>

definition ex_kbd :: kbd_state where
  "ex_kbd = keyboard_init \<lparr>ctrl_status = False, shift_status = False, alt_status = False,
                            caps_lock_status = False, ext_scancode = False,
                            kbd_buf = ex_ioq\<lparr>consumer := Some 0xc009e000\<rparr>\<rparr>"

section \<open>Lemmas\<close>

lemma kbd_ok_flags [simp]:
  "kbd_ok (k\<lparr>ctrl_status := x\<rparr>) s = kbd_ok k s" "kbd_ok (k\<lparr>shift_status := x\<rparr>) s = kbd_ok k s"
  "kbd_ok (k\<lparr>alt_status := x\<rparr>) s = kbd_ok k s" "kbd_ok (k\<lparr>caps_lock_status := x\<rparr>) s = kbd_ok k s"
  "kbd_ok (k\<lparr>ext_scancode := x\<rparr>) s = kbd_ok k s"
  by (simp_all add: kbd_ok_def)

lemma ioq_push_contents:
  assumes wf: "ioq_wf ioq" and nf: "next_pos (head ioq) \<noteq> tail ioq"
  shows "ioq_wf (ioq_push ioq c) \<and> ioq_contents (ioq_push ioq c) = ioq_contents ioq @ [c]"
proof -
  have wf0: "ioq_wf (ioq\<lparr>consumer := None\<rparr>)" using wf by (simp add: ioq_wf_def)
  have nf0: "next_pos (head (ioq\<lparr>consumer := None\<rparr>)) \<noteq> tail (ioq\<lparr>consumer := None\<rparr>)" using nf by simp
  have c0: "consumer (ioq\<lparr>consumer := None\<rparr>) = None" by simp
  note P = ioqueue_put_contents [OF wf0 nf0 c0, of c]
  have "ioq_contents (ioq\<lparr>consumer := None\<rparr>) = ioq_contents ioq" by (simp add: ioq_contents_def)
  then show ?thesis using P nf by (simp add: ioq_push_def ioq_wf_def ioq_contents_def)
qed

lemma ioqueue_putchar_kbd:
  assumes ok: "kbd_ok k s" and nf: "next_pos (head (kbd_buf k)) \<noteq> tail (kbd_buf k)"
  shows "\<exists>s1. ioqueue_putchar (kbd_buf k) c s = Inr (True, ioq_push (kbd_buf k) c, s1) \<and>
              kbd_ok (k\<lparr>kbd_buf := ioq_push (kbd_buf k) c\<rparr>) s1 \<and> cur s1 = cur s"
proof -
  note K = ok [unfolded kbd_ok_def]
  have b: "0 \<le> head (kbd_buf k)" using K by (simp add: ioq_wf_def)
  have w: "ioq_wf (ioq_push (kbd_buf k) c)" using ioq_push_contents [OF _ nf] K by simp
  show ?thesis
  proof (cases "consumer (kbd_buf k)")
    case None
    then show ?thesis using K nf b w
      by (simp add: ioqueue_putchar_def ioqueue_putchar_loop_def ioqueue_full_def intr_get_status_def
                    ioqueue_put_def next_pos_nonneg kbd_ok_def ioq_push_def)
  next
    case (Some t)
    then have t: "t \<in> set (all_tasks s)" "blocked_status (status (tasks s t))" using K by simp_all
    have pre: "sched_pre s" using K by (simp add: sched_inv_def)
    note U = thread_unblock_pre [OF pre t]
    obtain s1 where u: "thread_unblock t s = Inr s1" "sched_inv s1" "intr s1 = intr s"
      using thread_unblock_inv [OF _ t] K by blast
    have "cur s1 = cur s" using U u by simp
    then show ?thesis using K nf b w Some u
      by (simp add: ioqueue_putchar_def ioqueue_putchar_loop_def ioqueue_full_def intr_get_status_def
                    ioqueue_put_def next_pos_nonneg kbd_ok_def ioq_push_def wakeup_def)
  qed
qed

lemma kbd_put_step:
  assumes ok: "kbd_ok k s"
  shows "\<exists>k' s'. kbd_put c k s = Inr (k', s') \<and>
                 kbd_ok k' s' \<and> cur s' = cur s \<and> k' = k\<lparr>kbd_buf := kbd_buf k'\<rparr> \<and>
                 ioq_contents (kbd_buf k') =
                   (if length (ioq_contents (kbd_buf k)) = 63 then ioq_contents (kbd_buf k)
                    else ioq_contents (kbd_buf k) @ [c])"
proof -
  have wf: "ioq_wf (kbd_buf k)" and off: "intr s = INTR_OFF" using ok by (simp_all add: kbd_ok_def)
  have full: "ioqueue_full (kbd_buf k) s = Inr (length (ioq_contents (kbd_buf k)) = 63)"
    using ioq_full_iff [OF wf] off by (simp add: ioqueue_full_def intr_get_status_def)
  show ?thesis
  proof (cases "length (ioq_contents (kbd_buf k)) = 63")
    case True
    then show ?thesis using full ok by (simp add: kbd_put_def)
  next
    case False
    then have nf: "next_pos (head (kbd_buf k)) \<noteq> tail (kbd_buf k)" using ioq_full_iff [OF wf] by simp
    obtain s1 where p: "ioqueue_putchar (kbd_buf k) c s = Inr (True, ioq_push (kbd_buf k) c, s1)"
      "kbd_ok (k\<lparr>kbd_buf := ioq_push (kbd_buf k) c\<rparr>) s1" "cur s1 = cur s"
      using ioqueue_putchar_kbd [OF ok nf] by blast
    then show ?thesis using full False ioq_push_contents [OF wf nf, of c] by (simp add: kbd_put_def)
  qed
qed

lemma kbd_put_ok:
  "kbd_ok k s \<Longrightarrow> \<exists>k' s'. kbd_put c k s = Inr (k', s') \<and> kbd_ok k' s' \<and> cur s' = cur s \<and> alt_status k' = alt_status k"
  using kbd_put_step [of k s c] by (metis kbd_state.select_convs(3) kbd_state.surjective kbd_state.update_convs(6))

lemma kbd_break_ok: "kbd_ok (kbd_break sc k) s = kbd_ok k s" "alt_status (kbd_break sc k) \<longrightarrow> alt_status k"
  by (simp_all add: kbd_break_def Let_def)

lemma kbd_make_ok:
  assumes ok: "kbd_ok k s"
  shows "\<exists>k' s'. kbd_make cl sl capl sc k s = Inr (k', s') \<and> kbd_ok k' s' \<and> cur s' = cur s \<and> alt_status k' = alt_status k"
  using kbd_put_ok [OF ok] ok by (simp add: kbd_make_def Let_def)

lemma kbd_handler_unfold:
  "intr_keyboard_handler b k s =
     (if (ucast b :: u16) = 0xe0 then Inr (k\<lparr>ext_scancode := True\<rparr>, s)
      else
        (let sc = (if ext_scancode k then 0xe000 OR ucast b else ucast b);
             k1 = (if ext_scancode k then k\<lparr>ext_scancode := False\<rparr> else k) in
         if sc AND 0x0080 \<noteq> 0 then Inr (kbd_break sc k1, s)
         else if (0x00 < sc \<and> sc < 0x3b) \<or> sc = alt_r_make \<or> sc = ctrl_r_make then
           kbd_make (ctrl_status k) (shift_status k) (caps_lock_status k) sc k1 s
         else Inr (k1, s)))"
  by (simp add: intr_keyboard_handler_def Let_def)

lemma kbd_handler_ok:
  assumes ok: "kbd_ok k s"
  shows "\<exists>k' s'. intr_keyboard_handler b k s = Inr (k', s') \<and> kbd_ok k' s' \<and> cur s' = cur s \<and>
                 (alt_status k' \<longrightarrow> alt_status k)"
proof (cases "(ucast b :: u16) = 0xe0")
  case True
  then show ?thesis using ok by (simp add: kbd_handler_unfold)
next
  case False
  define sc where "sc = (if ext_scancode k then 0xe000 OR ucast b else (ucast b :: u16))"
  define k1 where "k1 = (if ext_scancode k then k\<lparr>ext_scancode := False\<rparr> else k)"
  have ok1: "kbd_ok k1 s" "alt_status k1 = alt_status k" using ok by (simp_all add: k1_def)
  have h: "intr_keyboard_handler b k s =
         (if sc AND 0x0080 \<noteq> 0 then Inr (kbd_break sc k1, s)
          else if (0x00 < sc \<and> sc < 0x3b) \<or> sc = alt_r_make \<or> sc = ctrl_r_make then
            kbd_make (ctrl_status k) (shift_status k) (caps_lock_status k) sc k1 s
          else Inr (k1, s))"
    using False by (simp add: kbd_handler_unfold Let_def sc_def k1_def)
  obtain k' s' where m: "kbd_make (ctrl_status k) (shift_status k) (caps_lock_status k) sc k1 s = Inr (k', s')"
    "kbd_ok k' s'" "cur s' = cur s" "alt_status k' = alt_status k1"
    using kbd_make_ok [OF ok1(1)] by blast
  show ?thesis using h m ok1 kbd_break_ok [of sc k1] by auto
qed

lemma ucast_u8_u16:
  fixes c :: u8
  shows "unat (ucast c :: u16) = unat c" and "(ucast ((ucast c :: u16) AND 0xff) :: u8) = c"
proof -
  have c8: "unat c < 2 ^ LENGTH(8)" by (rule unsigned_less)
  then show u: "unat (ucast c :: u16) = unat c" by (simp add: unsigned_ucast_eq take_bit_nat_eq_self_iff)
  have "(ucast c :: u16) < 2 ^ 8" using c8 u by (simp add: word_less_nat_alt)
  then have "(ucast c :: u16) AND mask 8 = ucast c" by (rule less_mask_eq)
  then have "(ucast c :: u16) AND 0xff = ucast c" by (simp add: mask_eq_exp_minus_1)
  moreover have "(ucast (ucast c :: u16) :: u8) = c"
    using c8 u by (simp add: word_unat_eq_iff unsigned_ucast_eq take_bit_nat_eq_self_iff take_bit_word_eq_self)
  ultimately show "(ucast ((ucast c :: u16) AND 0xff) :: u8) = c" by simp
qed

lemma kbd_visible_key:
  assumes ok: "kbd_ok k s" and e: "\<not> ext_scancode k" and room: "length (ioq_contents (kbd_buf k)) < 63"
    and c: "0 < unat c" "unat c < 59"
    and ch: "ch = (if key_shift (shift_status k) (caps_lock_status k) (ucast c) then snd else fst) (keymap ! unat c)"
    and vis: "ch \<noteq> CHR 0x00"
  shows "\<exists>k' s'. intr_keyboard_handler c k s = Inr (k', s') \<and> kbd_ok k' s' \<and> cur s' = cur s \<and>
           ioq_contents (kbd_buf k') = ioq_contents (kbd_buf k) @
             [if (ctrl_status k \<and> ch = CHR ''l'') \<or> (ctrl_status k \<and> ch = CHR ''u'') then char_of (of_char ch - of_char (CHR ''a'') :: nat) else ch]"
proof -
  note U = ucast_u8_u16 [of c]
  have ne: "(ucast c :: u16) \<noteq> 0xe0" using c U(1) by (auto simp: word_unat_eq_iff)
  have lt: "(ucast c :: u16) < 0x3b" "0 < (ucast c :: u16)" using c U(1) by (simp_all add: word_less_nat_alt)
  have mk: "(ucast c :: u16) AND 0x0080 = 0"
  proof -
    have "(ucast c :: u16) < 2 ^ 7" using c U(1) by (simp add: word_less_nat_alt)
    then have m: "(ucast c :: u16) AND mask 7 = ucast c" by (rule less_mask_eq)
    have z: "mask 7 AND (0x80 :: u16) = 0" by (simp add: mask_eq_exp_minus_1)
    have "(ucast c :: u16) AND 0x80 = ucast c AND (mask 7 AND 0x80)" by (subst m [symmetric]) (simp add: and.assoc)
    then show ?thesis using z by simp
  qed
  obtain k' s' where p: "kbd_put (if (ctrl_status k \<and> ch = CHR ''l'') \<or> (ctrl_status k \<and> ch = CHR ''u'') then char_of (of_char ch - of_char (CHR ''a'') :: nat) else ch) k s = Inr (k', s')"
    "kbd_ok k' s'" "cur s' = cur s"
    "ioq_contents (kbd_buf k') = ioq_contents (kbd_buf k) @
       [if (ctrl_status k \<and> ch = CHR ''l'') \<or> (ctrl_status k \<and> ch = CHR ''u'') then char_of (of_char ch - of_char (CHR ''a'') :: nat) else ch]"
    using kbd_put_step [OF ok] room by (metis less_irrefl)
  have idx: "unat (ucast ((ucast c :: u16) AND 0xff) :: u8) = unat c" using U(2) by simp
  have "intr_keyboard_handler c k s = Inr (k', s')"
    using ne lt mk e vis p(1) by (simp add: kbd_handler_unfold kbd_make_def Let_def idx flip: ch cong: if_cong split del: if_split)
  then show ?thesis using p by blast
qed

lemma keymap_upper:
  "list_all (\<lambda>(l, u). l \<in> set ''abcdefghijklmnopqrstuvwxyz'' \<longrightarrow> of_char u + 32 = (of_char l :: nat)) keymap"
  by (simp add: keymap_def)

lemma keymap_symbols:
  "list_all (\<lambda>j. fst (keymap ! j) \<notin> set ''abcdefghijklmnopqrstuvwxyz'')
     [0, 1, 2, 3, 4, 5, 6, 7, 8, 9, 10, 11, 12, 13, 26, 27, 39, 40, 41, 43, 51, 52, 53]"
  by (simp add: keymap_def)

lemma keymap_length: "length keymap = 59"
  by (simp add: keymap_def)

lemma keymap_letter:
  assumes i: "i < 59" and l: "fst (keymap ! i) \<in> set ''abcdefghijklmnopqrstuvwxyz''"
  shows "snd (keymap ! i) = char_of (of_char (fst (keymap ! i)) - 32 :: nat) \<and>
         fst (keymap ! i) \<noteq> CHR 0x00 \<and> snd (keymap ! i) \<noteq> CHR 0x00 \<and>
         \<not> (i < 14 \<or> i = 41 \<or> i = 26 \<or> i = 27 \<or> i = 43 \<or> i = 39 \<or> i = 40 \<or> i = 51 \<or> i = 52 \<or> i = 53)"
proof -
  have il: "i < length keymap" using i by (simp add: keymap_length)
  have "\<forall>n < length keymap. case keymap ! n of (l, u) \<Rightarrow>
          l \<in> set ''abcdefghijklmnopqrstuvwxyz'' \<longrightarrow> of_char u + 32 = (of_char l :: nat)"
    using keymap_upper by (simp only: list_all_length)
  note A = this
  have "case keymap ! i of (l, u) \<Rightarrow>
          l \<in> set ''abcdefghijklmnopqrstuvwxyz'' \<longrightarrow> of_char u + 32 = (of_char l :: nat)"
    by (rule A [rule_format, OF il])
  then have u: "of_char (snd (keymap ! i)) + 32 = (of_char (fst (keymap ! i)) :: nat)"
    by (simp only: case_prod_beta) (rule mp, assumption, rule l)
  have "97 \<le> (of_char (fst (keymap ! i)) :: nat)" using l by auto
  then have nz: "snd (keymap ! i) \<noteq> CHR 0x00" "fst (keymap ! i) \<noteq> CHR 0x00" using u by auto
  have up: "snd (keymap ! i) = char_of (of_char (fst (keymap ! i)) - 32 :: nat)"
    using u char_of_char [of "snd (keymap ! i)"] by (metis add_diff_cancel_right')
  have S: "\<forall>j \<in> set [0, 1, 2, 3, 4, 5, 6, 7, 8, 9, 10, 11, 12, 13, 26, 27, 39, 40, 41, 43, 51, 52, 53].
             fst (keymap ! j) \<notin> set ''abcdefghijklmnopqrstuvwxyz''"
    using keymap_symbols by (simp only: list_all_iff)
  have lt14: "i < 14 \<Longrightarrow> i \<in> set [0, 1, 2, 3, 4, 5, 6, 7, 8, 9, 10, 11, 12, 13 :: nat]"
    by (simp add: less_Suc_eq numeral_eq_Suc)
  have ns: "\<not> (i < 14 \<or> i = 41 \<or> i = 26 \<or> i = 27 \<or> i = 43 \<or> i = 39 \<or> i = 40 \<or> i = 51 \<or> i = 52 \<or> i = 53)"
  proof
    assume d: "i < 14 \<or> i = 41 \<or> i = 26 \<or> i = 27 \<or> i = 43 \<or> i = 39 \<or> i = 40 \<or> i = 51 \<or> i = 52 \<or> i = 53"
    have "i \<in> set [0, 1, 2, 3, 4, 5, 6, 7, 8, 9, 10, 11, 12, 13, 26, 27, 39, 40, 41, 43, 51, 52, 53]"
      using d lt14 by auto
    then have "fst (keymap ! i) \<notin> set ''abcdefghijklmnopqrstuvwxyz''" by (rule bspec [OF S])
    then show False using l by contradiction
  qed
  show ?thesis using up nz ns by blast
qed

lemma key_shift_letter:
  fixes c :: u8
  assumes "\<not> (unat c < 14 \<or> unat c = 41 \<or> unat c = 26 \<or> unat c = 27 \<or> unat c = 43 \<or> unat c = 39 \<or>
              unat c = 40 \<or> unat c = 51 \<or> unat c = 52 \<or> unat c = 53)"
  shows "key_shift sh cp (ucast c) = (sh \<noteq> cp)"
  using assms by (auto simp: key_shift_def word_less_nat_alt word_unat_eq_iff ucast_u8_u16(1))

lemma ctrl_chars:
  "char_of (of_char (CHR ''l'') - of_char (CHR ''a'') :: nat) = CHR 0x0B"
  "char_of (of_char (CHR ''u'') - of_char (CHR ''a'') :: nat) = CHR 0x14"
proof -
  have "(of_char (CHR ''l'') - of_char (CHR ''a'') :: nat) = of_char (CHR 0x0B)"
       "(of_char (CHR ''u'') - of_char (CHR ''a'') :: nat) = of_char (CHR 0x14)" by simp_all
  then show "char_of (of_char (CHR ''l'') - of_char (CHR ''a'') :: nat) = CHR 0x0B"
            "char_of (of_char (CHR ''u'') - of_char (CHR ''a'') :: nat) = CHR 0x14"
    by (simp_all only: char_of_char)
qed

subsection \<open>Properties of the keyboard driver\<close>

text \<open>C12: a keyboard interrupt never blocks or halts: for any sequence of scan codes,
  each handled with interrupts off on a well-formed buffer and scheduler (a waiting reader
  being a blocked task), every handler returns, the running task is not switched, the
  context stays well formed (a waiting reader is woken, never the interrupted task
  suspended), and \<open>alt_status\<close> is never set.\<close>

theorem keyboard_never_blocks:
  assumes "kbd_ok k s"
  shows "\<exists>k' s'. kbd_run bs k s = Inr (k', s') \<and> kbd_ok k' s' \<and> cur s' = cur s \<and>
                 (alt_status k' \<longrightarrow> alt_status k)"
  using assms
proof (induction bs arbitrary: k s)
  case Nil
  then show ?case by simp
next
  case (Cons b bs)
  obtain k1 s1 where h: "intr_keyboard_handler b k s = Inr (k1, s1)" "kbd_ok k1 s1" "cur s1 = cur s"
    "alt_status k1 \<longrightarrow> alt_status k"
    using kbd_handler_ok [OF Cons.prems] by blast
  then show ?case using Cons.IH [OF h(2)] by auto
qed

theorem keyboard_never_blocks_witness:
  "\<exists>k' s'. kbd_run [0x2a, 0x1e, 0xaa, 0xe0, 0x38, 0x1e, 0x9e] ex_kbd (ex_blocked\<lparr>intr := INTR_OFF\<rparr>) = Inr (k', s') \<and>
           kbd_ok k' s' \<and> cur s' = 0xc0101000 \<and> \<not> alt_status k'"
proof -
  have "kbd_ok ex_kbd (ex_blocked\<lparr>intr := INTR_OFF\<rparr>)"
    using ex_blocked_fields by (simp add: kbd_ok_def ex_kbd_def keyboard_init_def ioqueue_init_def ex_ioq_def ioq_wf_def
                                          blocked_status_def)
  moreover have "\<not> alt_status ex_kbd" by (simp add: ex_kbd_def keyboard_init_def)
  ultimately show ?thesis using keyboard_never_blocks [of ex_kbd "ex_blocked\<lparr>intr := INTR_OFF\<rparr>" "[0x2a, 0x1e, 0xaa, 0xe0, 0x38, 0x1e, 0x9e]"]
    by (simp del: kbd_run.simps add: ex_blocked_fields)
qed

text \<open>C14: a letter key pressed without Ctrl, on a buffer with room, puts its letter into
  the buffer: lower case when Shift and Caps Lock are both up or both down, upper case
  (the code 32 below) otherwise.\<close>

theorem keyboard_letter_case:
  assumes ok: "kbd_ok k s" and e: "\<not> ext_scancode k" and nc: "\<not> ctrl_status k"
    and room: "length (ioq_contents (kbd_buf k)) < 63"
    and key: "unat c < 59" "fst (keymap ! unat c) \<in> set ''abcdefghijklmnopqrstuvwxyz''"
  shows "\<exists>k' s'. intr_keyboard_handler c k s = Inr (k', s') \<and> kbd_ok k' s' \<and> cur s' = cur s \<and>
           ioq_contents (kbd_buf k') = ioq_contents (kbd_buf k) @
             [if shift_status k = caps_lock_status k then fst (keymap ! unat c)
              else char_of (of_char (fst (keymap ! unat c)) - 32 :: nat)]"
proof -
  note L = keymap_letter [OF key]
  have ks: "key_shift (shift_status k) (caps_lock_status k) (ucast c) = (shift_status k \<noteq> caps_lock_status k)"
    using L by (intro key_shift_letter) blast
  define ch where "ch = (if key_shift (shift_status k) (caps_lock_status k) (ucast c) then snd else fst) (keymap ! unat c)"
  have c0: "0 < unat c" using L by linarith
  have nz: "fst (keymap ! unat c) \<noteq> CHR 0x00" "snd (keymap ! unat c) \<noteq> CHR 0x00" using L by blast+
  have v: "ch \<noteq> CHR 0x00" using nz by (simp add: ch_def)
  obtain k' s' where r: "intr_keyboard_handler c k s = Inr (k', s')" "kbd_ok k' s'" "cur s' = cur s"
    "ioq_contents (kbd_buf k') = ioq_contents (kbd_buf k) @
       [if (ctrl_status k \<and> ch = CHR ''l'') \<or> (ctrl_status k \<and> ch = CHR ''u'') then char_of (of_char ch - of_char (CHR ''a'') :: nat) else ch]"
    using kbd_visible_key [OF ok e room c0 key(1) ch_def v] by blast
  then show ?thesis using nc ks L by (auto simp: ch_def)
qed

theorem keyboard_letter_case_witness:
  "\<exists>k' s'. intr_keyboard_handler 0x1e (ex_kbd\<lparr>caps_lock_status := True\<rparr>) (ex_blocked\<lparr>intr := INTR_OFF\<rparr>) = Inr (k', s') \<and>
           kbd_ok k' s' \<and> cur s' = 0xc0101000 \<and> ioq_contents (kbd_buf k') = [CHR ''A'']"
proof -
  have ok: "kbd_ok (ex_kbd\<lparr>caps_lock_status := True\<rparr>) (ex_blocked\<lparr>intr := INTR_OFF\<rparr>)"
    using ex_blocked_fields by (simp add: kbd_ok_def ex_kbd_def keyboard_init_def ioqueue_init_def ex_ioq_def ioq_wf_def
                                          blocked_status_def)
  have e: "ioq_contents (kbd_buf ex_kbd) = []"
    by (simp add: ex_kbd_def keyboard_init_def ioqueue_init_def ioq_contents_def)
  have l: "fst (keymap ! 30) = CHR ''a''" by (simp add: keymap_def)
  have "char_of (of_char (CHR ''a'') - 32 :: nat) = CHR ''A''"
  proof -
    have "(of_char (CHR ''a'') - 32 :: nat) = of_char (CHR ''A'')" by simp
    then show ?thesis by (simp only: char_of_char)
  qed
  then show ?thesis using keyboard_letter_case [OF ok, of "0x1e"] e l ex_blocked_fields
    by (simp add: ex_kbd_def keyboard_init_def)
qed

text \<open>C17: Ctrl+l and Ctrl+u, the shell's clear-screen and kill-line shortcuts, reach the
  buffer as the codes \<open>0x0b\<close> and \<open>0x14\<close> only while Caps Lock is off: with Caps Lock on
  (and Shift up) the handler looks up the upper-case column first and delivers a plain
  \<open>L\<close> or \<open>U\<close>.\<close>

theorem keyboard_ctrl_shortcuts_caps:
  assumes ok: "kbd_ok k s" and e: "\<not> ext_scancode k" and ctrl: "ctrl_status k" and ns: "\<not> shift_status k"
    and room: "length (ioq_contents (kbd_buf k)) < 63"
  shows "(\<exists>k' s'. intr_keyboard_handler 0x26 k s = Inr (k', s') \<and>
            ioq_contents (kbd_buf k') = ioq_contents (kbd_buf k) @ [if caps_lock_status k then CHR ''L'' else CHR 0x0B]) \<and>
         (\<exists>k' s'. intr_keyboard_handler 0x16 k s = Inr (k', s') \<and>
            ioq_contents (kbd_buf k') = ioq_contents (kbd_buf k) @ [if caps_lock_status k then CHR ''U'' else CHR 0x14])"
proof -
  have t: "keymap ! 38 = (CHR ''l'', CHR ''L'')" "keymap ! 22 = (CHR ''u'', CHR ''U'')" by (simp_all add: keymap_def)
  have ks: "key_shift False cp (ucast (0x26 :: u8)) = cp" "key_shift False cp (ucast (0x16 :: u8)) = cp" for cp
    by (simp_all add: key_shift_def)
  have l: "\<exists>k' s'. intr_keyboard_handler 0x26 k s = Inr (k', s') \<and>
            ioq_contents (kbd_buf k') = ioq_contents (kbd_buf k) @ [if caps_lock_status k then CHR ''L'' else CHR 0x0B]"
    using kbd_visible_key [OF ok e room, of "0x26" "if caps_lock_status k then CHR ''L'' else CHR ''l''"] ns ks t ctrl ctrl_chars
    by (cases "caps_lock_status k") auto
  have u: "\<exists>k' s'. intr_keyboard_handler 0x16 k s = Inr (k', s') \<and>
            ioq_contents (kbd_buf k') = ioq_contents (kbd_buf k) @ [if caps_lock_status k then CHR ''U'' else CHR 0x14]"
    using kbd_visible_key [OF ok e room, of "0x16" "if caps_lock_status k then CHR ''U'' else CHR ''u''"] ns ks t ctrl ctrl_chars
    by (cases "caps_lock_status k") auto
  show ?thesis using l u by blast
qed

theorem keyboard_ctrl_shortcuts_caps_witness:
  "(\<exists>k' s'. intr_keyboard_handler 0x26 (ex_kbd\<lparr>ctrl_status := True, caps_lock_status := True\<rparr>) (ex_blocked\<lparr>intr := INTR_OFF\<rparr>) = Inr (k', s') \<and>
            ioq_contents (kbd_buf k') = [CHR ''L'']) \<and>
   (\<exists>k' s'. intr_keyboard_handler 0x26 (ex_kbd\<lparr>ctrl_status := True\<rparr>) (ex_blocked\<lparr>intr := INTR_OFF\<rparr>) = Inr (k', s') \<and>
            ioq_contents (kbd_buf k') = [CHR 0x0B])"
proof -
  have ok: "kbd_ok (ex_kbd\<lparr>ctrl_status := True, caps_lock_status := c\<rparr>) (ex_blocked\<lparr>intr := INTR_OFF\<rparr>)" for c
    using ex_blocked_fields by (simp add: kbd_ok_def ex_kbd_def keyboard_init_def ioqueue_init_def ex_ioq_def ioq_wf_def
                                          blocked_status_def)
  have e: "ioq_contents (kbd_buf ex_kbd) = []"
    by (simp add: ex_kbd_def keyboard_init_def ioqueue_init_def ioq_contents_def)
  have k0: "ex_kbd\<lparr>ctrl_status := True\<rparr> = ex_kbd\<lparr>ctrl_status := True, caps_lock_status := False\<rparr>"
    by (simp add: ex_kbd_def keyboard_init_def)
  show ?thesis
    using keyboard_ctrl_shortcuts_caps [OF ok [of True]] keyboard_ctrl_shortcuts_caps [OF ok [of False]] e k0
    by (simp add: ex_kbd_def keyboard_init_def)
qed

end
