(* ===== verification/Kstring.thy ===== *)
theory Kstring
  imports Prelude
begin

text \<open>
  The string and memory functions of \<open>src/lib/string.c\<close> over a byte-addressed memory
  (\<open>bytes\<close>: 32-bit address to byte). Pointers are 32-bit addresses and \<open>p++\<close> wraps.
  \<open>char\<close> is signed on the i386 target, so the functions that compare \<open>char\<close>s read a
  byte with \<open>sint\<close>; \<open>uint8_t\<close> arguments are read with \<open>uint\<close>. \<open>assert\<close> is a fatal
  outcome like \<open>ASSERT\<close>.

  The loops bounded by a count (\<open>memset\<close>, \<open>memcpy\<close>, \<open>memcmp\<close>; the count \<open>size\<close> is \<open>sz\<close> here) are functions with a
  termination proof on the count. The loops that run to a NUL byte may not end when there
  is none: they are \<open>partial_function (option)\<close>, where \<open>None\<close> is divergence.
\<close>

section \<open>Memory and string functions\<close>

type_synonym bytes = "u32 \<Rightarrow> u8"

function memset_loop :: "bytes \<Rightarrow> u32 \<Rightarrow> u8 \<Rightarrow> u32 \<Rightarrow> bytes" where
  "memset_loop m dst v sz = (if sz = 0 then m else memset_loop (m(dst := v)) (dst + 1) v (sz - 1))"
  by pat_completeness auto
termination by (relation "measure (\<lambda>(m, dst, v, sz). unat sz)") (auto intro: measure_unat)

definition memset :: "bytes \<Rightarrow> u32 \<Rightarrow> u8 \<Rightarrow> u32 \<Rightarrow> fatal + bytes" where
  "memset m dst value sz = (if dst = 0 then Inl (ASSERT_failed ''dst != NULL'') else Inr (memset_loop m dst value sz))"

function memcpy_loop :: "bytes \<Rightarrow> u32 \<Rightarrow> u32 \<Rightarrow> u32 \<Rightarrow> bytes" where
  "memcpy_loop m dst src sz = (if sz = 0 then m else memcpy_loop (m(dst := m src)) (dst + 1) (src + 1) (sz - 1))"
  by pat_completeness auto
termination by (relation "measure (\<lambda>(m, dst, src, sz). unat sz)") (auto intro: measure_unat)

definition memcpy :: "bytes \<Rightarrow> u32 \<Rightarrow> u32 \<Rightarrow> u32 \<Rightarrow> fatal + bytes" where
  "memcpy m dst src sz =
     (if dst = 0 \<or> src = 0 then Inl (ASSERT_failed ''dst != NULL && src != NULL'') else Inr (memcpy_loop m dst src sz))"

function memcmp_loop :: "bytes \<Rightarrow> u32 \<Rightarrow> u32 \<Rightarrow> u32 \<Rightarrow> int" where
  "memcmp_loop m a b sz =
     (if sz = 0 then 0
      else if m a \<noteq> m b then (if sint (m a) > sint (m b) then 1 else -1)
      else memcmp_loop m (a + 1) (b + 1) (sz - 1))"
  by pat_completeness auto
termination by (relation "measure (\<lambda>(m, a, b, sz). unat sz)") (auto intro: measure_unat)

definition memcmp :: "bytes \<Rightarrow> u32 \<Rightarrow> u32 \<Rightarrow> u32 \<Rightarrow> fatal + int" where
  "memcmp m a b sz =
     (if a = 0 \<or> b = 0 then Inl (ASSERT_failed ''a != NULL && b != NULL'') else Inr (memcmp_loop m a b sz))"

text \<open>\<open>while ((*dst_++ = *src_++));\<close>: the byte is read from the memory as updated so far.\<close>

partial_function (option) strcpy_loop :: "bytes \<Rightarrow> u32 \<Rightarrow> u32 \<Rightarrow> bytes option" where
  "strcpy_loop m dst src = (let c = m src; m1 = m(dst := c) in if c = 0 then Some m1 else strcpy_loop m1 (dst + 1) (src + 1))"

definition strcpy :: "bytes \<Rightarrow> u32 \<Rightarrow> u32 \<Rightarrow> (fatal + u32 \<times> bytes) option" where
  "strcpy m dst src =
     (if dst = 0 \<or> src = 0 then Some (Inl (ASSERT_failed ''dst != NULL & src != NULL''))
      else map_option (\<lambda>m1. Inr (dst, m1)) (strcpy_loop m dst src))"

text \<open>\<open>while (*p++);\<close>: returns the address after the NUL byte.\<close>

partial_function (option) strlen_loop :: "bytes \<Rightarrow> u32 \<Rightarrow> u32 option" where
  "strlen_loop m p = (if m p = 0 then Some (p + 1) else strlen_loop m (p + 1))"

definition strlen :: "bytes \<Rightarrow> u32 \<Rightarrow> (fatal + u32) option" where
  "strlen m str = (if str = 0 then Some (Inl (ASSERT_failed ''str != NULL'')) else map_option (\<lambda>p. Inr (p - str - 1)) (strlen_loop m str))"

partial_function (option) strcmp_loop :: "bytes \<Rightarrow> u32 \<Rightarrow> u32 \<Rightarrow> int option" where
  "strcmp_loop m a b =
     (if m a \<noteq> 0 \<and> m a = m b then strcmp_loop m (a + 1) (b + 1)
      else Some (if sint (m a) < sint (m b) then -1 else if sint (m a) > sint (m b) then 1 else 0))"

definition strcmp :: "bytes \<Rightarrow> u32 \<Rightarrow> u32 \<Rightarrow> (fatal + int) option" where
  "strcmp m a b = (if a = 0 \<or> b = 0 then Some (Inl (ASSERT_failed ''a != NULL && b != NULL'')) else map_option Inr (strcmp_loop m a b))"

partial_function (option) strchr_loop :: "bytes \<Rightarrow> u32 \<Rightarrow> u8 \<Rightarrow> u32 option" where
  "strchr_loop m str ch = (if m str = 0 then Some 0 else if sint (m str) = uint ch then Some str else strchr_loop m (str + 1) ch)"

definition strchr :: "bytes \<Rightarrow> u32 \<Rightarrow> u8 \<Rightarrow> (fatal + u32) option" where
  "strchr m str ch = (if str = 0 then Some (Inl (ASSERT_failed ''str != NULL'')) else map_option Inr (strchr_loop m str ch))"

partial_function (option) strrchr_loop :: "bytes \<Rightarrow> u32 \<Rightarrow> u8 \<Rightarrow> u32 \<Rightarrow> u32 option" where
  "strrchr_loop m str ch last_char =
     (if m str = 0 then Some last_char
      else strrchr_loop m (str + 1) ch (if sint (m str) = uint ch then str else last_char))"

definition strrchr :: "bytes \<Rightarrow> u32 \<Rightarrow> u8 \<Rightarrow> (fatal + u32) option" where
  "strrchr m str ch = (if str = 0 then Some (Inl (ASSERT_failed ''str != NULL'')) else map_option Inr (strrchr_loop m str ch 0))"

text \<open>\<open>strcat\<close>: the first loop is \<open>strlen\<close>'s, the second \<open>strcpy\<close>'s from the NUL of \<open>dst_\<close>.\<close>

definition strcat :: "bytes \<Rightarrow> u32 \<Rightarrow> u32 \<Rightarrow> (fatal + u32 \<times> bytes) option" where
  "strcat m dst src =
     (if dst = 0 \<or> src = 0 then Some (Inl (ASSERT_failed ''dst != NULL && src != NULL''))
      else (case strlen_loop m dst of
              None \<Rightarrow> None
            | Some str \<Rightarrow> map_option (\<lambda>m1. Inr (dst, m1)) (strcpy_loop m (str - 1) src)))"

partial_function (option) strchrs_loop :: "bytes \<Rightarrow> u32 \<Rightarrow> u8 \<Rightarrow> u32 \<Rightarrow> u32 option" where
  "strchrs_loop m p ch ch_cnt =
     (if m p = 0 then Some ch_cnt else strchrs_loop m (p + 1) ch (if sint (m p) = uint ch then ch_cnt + 1 else ch_cnt))"

definition strchrs :: "bytes \<Rightarrow> u32 \<Rightarrow> u8 \<Rightarrow> (fatal + u32) option" where
  "strchrs m str ch = (if str = 0 then Some (Inl (ASSERT_failed ''str != NULL'')) else map_option Inr (strchrs_loop m str ch 0))"

declare memset_loop.simps [simp del] memcpy_loop.simps [simp del] memcmp_loop.simps [simp del]


subsection \<open>Lemmas\<close>

lemma unat_sub_one_less: "(w :: u32) \<noteq> 0 \<Longrightarrow> unat (w - 1) = unat w - 1"
  by (simp add: unat_minus_one)

lemma unat_diff_Suc: "(a :: u32) \<noteq> d \<Longrightarrow> unat (a - d) = Suc (unat (a - (d + 1)))"
proof -
  assume "a \<noteq> d"
  then have "a - d \<noteq> 0" by simp
  then have "unat (a - d - 1) = unat (a - d) - 1" by (rule unat_sub_one_less)
  moreover have "unat (a - d) \<noteq> 0" using \<open>a - d \<noteq> 0\<close> by (simp add: unat_eq_zero)
  ultimately show ?thesis by (simp add: diff_diff_eq)
qed

lemma unat_sz_minus_one_le: "unat ((sz :: u32) - 1) \<le> unat ((a :: u32) - (a + 1))"
proof -
  have m1: "unat (a - (a + 1)) = 4294967295" by (simp add: unsigned_minus_1_eq_mask mask_eq_exp_minus_1)
  have "unat (sz - 1) < 4294967296" by (rule unat_u32_less)
  then show ?thesis using m1 by linarith
qed

text \<open>\<open>memset\<close> writes the value at the \<open>sz\<close> addresses from \<open>dst\<close> on (modulo \<open>2^32\<close>).\<close>

lemma memset_loop_eq:
  "memset_loop m dst v sz = (\<lambda>a. if unat (a - dst) < unat sz then v else m a)"
proof (induction m dst v sz rule: memset_loop.induct)
  case (1 m dst v sz)
  show ?case
  proof (cases "sz = 0")
    case True
    then show ?thesis by (simp add: memset_loop.simps)
  next
    case False
    have pt: "(if unat (a - (dst + 1)) < unat (sz - 1) then v else (m(dst := v)) a) =
          (if unat (a - dst) < unat sz then v else m a)" for a
    proof (cases "a = dst")
      case True
      have "unat (sz - 1) \<le> unat (a - (dst + 1))" using True unat_sz_minus_one_le [of sz dst] by simp
      then show ?thesis using True False by (simp add: unat_eq_zero)
    next
      case ne: False
      have pos: "0 < unat sz" using False by (simp add: unat_gt_0)
      show ?thesis using False pos ne by (auto simp: unat_diff_Suc [OF ne] unat_sub_one_less)
    qed
    have "memset_loop m dst v sz = memset_loop (m(dst := v)) (dst + 1) v (sz - 1)"
      using False by (simp add: memset_loop.simps [of m dst v sz])
    also have "\<dots> = (\<lambda>a. if unat (a - (dst + 1)) < unat (sz - 1) then v else (m(dst := v)) a)"
      by (rule "1.IH" [OF False])
    also have "\<dots> = (\<lambda>a. if unat (a - dst) < unat sz then v else m a)" by (rule ext) (rule pt)
    finally show ?thesis .
  qed
qed


text \<open>
  \<open>memcpy\<close> copies byte by byte upwards: it equals a copy of the source region read at
  the call unless the destination starts strictly inside the source region (then bytes
  already overwritten are copied again).
\<close>

lemma memcpy_loop_eq:
  assumes "dst = src \<or> unat sz \<le> unat (dst - src)"
  shows "memcpy_loop m dst src sz = (\<lambda>a. if unat (a - dst) < unat sz then m (src + (a - dst)) else m a)"
  using assms
proof (induction m dst src sz rule: memcpy_loop.induct)
  case (1 m dst src sz)
  show ?case
  proof (cases "sz = 0")
    case True
    then show ?thesis by (simp add: memcpy_loop.simps)
  next
    case False
    have pos: "0 < unat sz" using False by (simp add: unat_gt_0)
    have c1: "dst + 1 = src + 1 \<or> unat (sz - 1) \<le> unat (dst + 1 - (src + 1))"
      using "1.prems" by (auto simp: unat_sub_one_less False)
    have pt: "(if unat (a - (dst + 1)) < unat (sz - 1) then (m(dst := m src)) (src + 1 + (a - (dst + 1)))
               else (m(dst := m src)) a) =
          (if unat (a - dst) < unat sz then m (src + (a - dst)) else m a)" for a
    proof (cases "a = dst")
      case True
      have "unat (sz - 1) \<le> unat (a - (dst + 1))" using True unat_sz_minus_one_le [of sz dst] by simp
      then show ?thesis using True pos by simp
    next
      case ne: False
      have k: "unat (a - dst) = Suc (unat (a - (dst + 1)))" by (rule unat_diff_Suc [OF ne])
      have src_eq: "src + 1 + (a - (dst + 1)) = src + (a - dst)" by simp
      have "src + (a - dst) \<noteq> dst" if "unat (a - dst) < unat sz"
      proof
        assume "src + (a - dst) = dst"
        then have "dst - src = a - dst" by (simp add: algebra_simps)
        then show False using "1.prems" that ne k by (auto simp: eq_neg_iff_add_eq_0)
      qed
      then show ?thesis using pos ne k by (auto simp: src_eq unat_sub_one_less False)
    qed
    have "memcpy_loop m dst src sz = memcpy_loop (m(dst := m src)) (dst + 1) (src + 1) (sz - 1)"
      using False by (simp add: memcpy_loop.simps [of m dst src sz])
    also have "\<dots> = (\<lambda>a. if unat (a - (dst + 1)) < unat (sz - 1) then (m(dst := m src)) (src + 1 + (a - (dst + 1)))
               else (m(dst := m src)) a)"
      by (rule "1.IH" [OF False c1])
    also have "\<dots> = (\<lambda>a. if unat (a - dst) < unat sz then m (src + (a - dst)) else m a)" by (rule ext) (rule pt)
    finally show ?thesis .
  qed
qed


lemma strlen_loop_first_nul:
  "(\<forall>i<n. m (p + of_nat i) \<noteq> 0) \<Longrightarrow> m (p + of_nat n) = 0 \<Longrightarrow> strlen_loop m p = Some (p + of_nat n + 1)"
proof (induction n arbitrary: p)
  case 0
  then show ?case by (simp add: strlen_loop.simps [of m p])
next
  case (Suc n)
  have "m p \<noteq> 0" using Suc.prems(1) [rule_format, of 0] by simp
  moreover have "strlen_loop m (p + 1) = Some (p + 1 + of_nat n + 1)"
    using Suc.prems by (intro Suc.IH) (auto simp: add.assoc ac_simps)
  ultimately show ?case by (simp add: strlen_loop.simps [of m p] ac_simps)
qed

lemma strlen_loop_has_nul:
  assumes "strlen_loop m p = Some r"
  shows "\<exists>a. m a = 0"
  by (rule strlen_loop.raw_induct [where P = "\<lambda>m p r. \<exists>a. m a = 0", OF _ assms]) (auto split: if_splits)

lemma first_nul_exists:
  fixes m :: bytes and p :: u32
  assumes "m a = 0"
  obtains n where "\<forall>i<n. m (p + of_nat i) \<noteq> (0::u8)" "m (p + of_nat n) = 0"
proof -
  have ex: "\<exists>k. m (p + of_nat k) = 0" by (rule exI [of _ "unat (a - p)"]) (simp add: assms)
  define n where "n = (LEAST k. m (p + of_nat k) = 0)"
  have "m (p + of_nat n) = 0" unfolding n_def using ex by (rule LeastI_ex)
  moreover have "\<forall>i<n. m (p + of_nat i) \<noteq> 0" unfolding n_def using not_less_Least by blast
  ultimately show ?thesis using that by blast
qed


lemma reach_addr: "(p :: u32) + of_nat (unat (x - p)) = x"
  by simp

lemma sint_u8_le: "sint (w :: u8) < 128"
proof -
  have "sint w < 2 ^ (LENGTH(8) - 1)" by (rule sint_lt)
  then show ?thesis by simp
qed

lemma strcmp_loop_range:
  "m (a + of_nat n) = 0 \<Longrightarrow> \<exists>r. strcmp_loop m a b = Some r \<and> r \<in> {-1, 0, 1}"
proof (induction n arbitrary: a b)
  case 0
  then show ?case by (simp add: strcmp_loop.simps [of m a b])
next
  case (Suc n)
  have "m (a + 1 + of_nat n) = 0" using Suc.prems by (simp add: ac_simps)
  then obtain r where "strcmp_loop m (a + 1) (b + 1) = Some r" "r \<in> {-1, 0, 1}" using Suc.IH by blast
  then show ?case by (simp add: strcmp_loop.simps [of m a b])
qed

lemma strchr_loop_high:
  "m (p + of_nat n) = 0 \<Longrightarrow> 128 \<le> uint ch \<Longrightarrow> strchr_loop m p ch = Some 0"
proof (induction n arbitrary: p)
  case 0
  then show ?case by (simp add: strchr_loop.simps [of m p])
next
  case (Suc n)
  have ne: "sint (m p) \<noteq> uint ch" using sint_u8_le [of "m p"] Suc.prems(2) by linarith
  have "m (p + 1 + of_nat n) = 0" using Suc.prems by (simp add: ac_simps)
  then have "strchr_loop m (p + 1) ch = Some 0" using Suc.IH Suc.prems(2) by blast
  then show ?case using ne by (simp add: strchr_loop.simps [of m p])
qed


subsection \<open>Properties of the string functions\<close>

text \<open>
  C24. \<open>strcmp\<close> returns whenever the memory holds a NUL byte somewhere (its loop stops at
  the end of the first string at the latest, the addresses wrapping around), and its
  \<open>int8_t\<close> result is always -1, 0 or 1.
\<close>

theorem strcmp_total_range:
  assumes "a \<noteq> 0" and "b \<noteq> 0" and "m x = 0"
  shows "\<exists>r. strcmp m a b = Some (Inr r) \<and> r \<in> {-1, 0, 1}"
proof -
  have "m (a + of_nat (unat (x - a))) = 0" using assms(3) by simp
  then obtain r where "strcmp_loop m a b = Some r" "r \<in> {-1, 0, 1}" using strcmp_loop_range by blast
  then show ?thesis using assms(1,2) by (simp add: strcmp_def)
qed

theorem strcmp_total_range_witness:
  "\<exists>r. strcmp ((\<lambda>_. 0)(0x1000 := 0x61, 0x1001 := 0x62, 0x2000 := 0x61, 0x2001 := 0x63)) 0x1000 0x2000 = Some (Inr r) \<and>
       r \<in> {-1, 0, 1}"
  by (rule strcmp_total_range [of "0x1000" "0x2000" _ 0]) simp_all

text \<open>
  C28. \<open>strchr\<close> never finds a byte of value 128 or more: it compares the signed
  \<open>char\<close> of the string with the \<open>uint8_t\<close> argument, which differ for every such byte,
  so it returns \<open>NULL\<close> even when the string contains the byte.
\<close>

theorem strchr_high_never_found:
  assumes "128 \<le> uint ch" and "str \<noteq> 0" and "m x = 0"
  shows "strchr m str ch = Some (Inr 0)"
proof -
  have "m (str + of_nat (unat (x - str))) = 0" using assms(3) by simp
  then have "strchr_loop m str ch = Some 0" using strchr_loop_high assms(1) by blast
  then show ?thesis using assms(2) by (simp add: strchr_def)
qed

theorem strchr_high_never_found_witness:
  "strchr ((\<lambda>_. 0)(0x1000 := 0xe9)) 0x1000 0xe9 = Some (Inr 0)"
  by (rule strchr_high_never_found [of _ _ _ 0]) simp_all

text \<open>
  C37. \<open>strlen\<close> returns exactly when the memory holds a NUL byte (otherwise its loop
  runs forever, the pointer wrapping around), and then it returns the distance from
  \<open>str\<close> to the first NUL byte.
\<close>

theorem strlen_terminates:
  assumes "str \<noteq> 0"
  shows "(\<exists>r. strlen m str = Some r) = (\<exists>a. m a = 0) \<and>
         ((\<forall>i<n. m (str + of_nat i) \<noteq> 0) \<and> m (str + of_nat n) = 0 \<longrightarrow> strlen m str = Some (Inr (of_nat n)))"
proof -
  have "(\<exists>r. strlen m str = Some r) = (\<exists>a. m a = 0)"
  proof
    assume "\<exists>r. strlen m str = Some r"
    then obtain p where "strlen_loop m str = Some p" using assms by (auto simp: strlen_def)
    then show "\<exists>a. m a = 0" by (rule strlen_loop_has_nul)
  next
    assume "\<exists>a. m a = 0"
    then obtain a where "m a = 0" by blast
    then obtain k where "\<forall>i<k. m (str + of_nat i) \<noteq> 0" "m (str + of_nat k) = 0" by (rule first_nul_exists)
    then show "\<exists>r. strlen m str = Some r" using assms by (simp add: strlen_def strlen_loop_first_nul)
  qed
  moreover have "strlen m str = Some (Inr (of_nat n))"
    if "\<forall>i<n. m (str + of_nat i) \<noteq> 0" "m (str + of_nat n) = 0"
    using assms strlen_loop_first_nul [OF that] by (simp add: strlen_def)
  ultimately show ?thesis by blast
qed

theorem strlen_terminates_witness:
  "(\<exists>r. strlen ((\<lambda>_. 0x41)(0x1003 := 0)) 0x1000 = Some r) \<and> strlen ((\<lambda>_. 0x41)(0x1003 := 0)) 0x1000 = Some (Inr 3)"
proof -
  have "(\<forall>i<3. ((\<lambda>_. 0x41)(0x1003 := 0) :: bytes) (0x1000 + of_nat i) \<noteq> 0)"
    by (auto simp: less_Suc_eq numeral_3_eq_3)
  then show ?thesis
    using strlen_terminates [of "0x1000" "(\<lambda>_. 0x41)(0x1003 := 0)" 3] by auto
qed

end
