(* ===== verification/Stdio.thy ===== *)
theory Stdio
  imports Kstring
begin

text \<open>
  Formatted output of \<open>src/lib/stdio.c\<close>: \<open>itoa\<close>, \<open>vsprintf\<close>, \<open>sprintf\<close> and the
  buffer part of \<open>printf\<close>, over the byte memory of \<open>Kstring\<close>. The variadic arguments are
  the stack words after the format pointer: \<open>va_start(ap, format)\<close> points \<open>ap\<close> at the
  format argument and \<open>va_arg\<close> advances it by 4 before reading, so the \<open>k\<close>-th
  \<open>va_arg\<close> reads the word \<open>args k\<close>; a \<open>char\<close> argument is the low byte of its word.
  \<open>itoa\<close> recurses on \<open>value / base\<close> and \<open>vsprintf\<close> loops until the NUL of the format,
  so both are \<open>partial_function (option)\<close>: \<open>None\<close> is a call that does not return.
\<close>

section \<open>\<open>itoa\<close>\<close>

text \<open>\<open>itoa(value, &buf_ptr, base)\<close>: the digits of \<open>value / base\<close> first, then the digit of
  \<open>value % base\<close> (\<open>m + '0'\<close> or \<open>m - 10 + 'A'\<close>, stored as a \<open>char\<close>); the shared
  pointer \<open>*buf_ptr_addr\<close> is passed in and returned advanced.\<close>

partial_function (option) itoa :: "u32 \<Rightarrow> u32 \<Rightarrow> u8 \<Rightarrow> bytes \<Rightarrow> (u32 \<times> bytes) option" where
  "itoa value buf_ptr base m =
     (let mm = value mod ucast base; q = value div ucast base in
      Option.bind (if q \<noteq> 0 then itoa q buf_ptr base m else Some (buf_ptr, m))
        (\<lambda>(p, m1). Some (p + 1, m1(p := (if mm < 10 then ucast (mm + 48) else ucast (mm - 10 + 65))))))"

section \<open>\<open>vsprintf\<close>, \<open>sprintf\<close> and \<open>printf\<close>\<close>

text \<open>
  The body of the \<open>switch\<close> of \<open>vsprintf\<close>, entered on a \<open>%\<close> at \<open>index_ptr\<close>:
  the cases \<open>s\<close> (\<open>strcpy\<close>, then \<open>buf_ptr += strlen(arg_str)\<close>), \<open>d\<close> (the
  \<open>int32_t\<close> argument, negated in 32 bits after writing \<open>-\<close> when negative, then
  \<open>itoa\<close> in base 10), \<open>x\<close> (\<open>itoa\<close> in base 16) and \<open>c\<close> consume the next
  argument and the next format character; any other character after \<open>%\<close> becomes
  \<open>index_char\<close> without being consumed. The result is the new memory, \<open>buf_ptr\<close>,
  \<open>index_ptr\<close>, \<open>index_char\<close> and the number of arguments read; each read of
  \<open>*(++index_ptr)\<close> happens after the writes before it.
\<close>

definition vsprintf_conv ::
  "bytes \<Rightarrow> u32 \<Rightarrow> u32 \<Rightarrow> (nat \<Rightarrow> u32) \<Rightarrow> nat \<Rightarrow> (fatal + bytes \<times> u32 \<times> u32 \<times> u8 \<times> nat) option" where
  "vsprintf_conv m buf_ptr index_ptr args k =
     (let ip = index_ptr + 1; index_char = m ip in
      if index_char = 115 then
        (let arg_str = args k in
         Option.bind (strcpy m buf_ptr arg_str) (\<lambda>r. case r of
           Inl e \<Rightarrow> Some (Inl e)
         | Inr (_, m1) \<Rightarrow> map_option (map_sum id (\<lambda>n. (m1, buf_ptr + n, ip + 1, m1 (ip + 1), k + 1)))
                            (strlen m1 arg_str)))
      else if index_char = 100 then
        (let arg_int = args k;
             (buf1, m1, a) = (if sint arg_int < 0 then (buf_ptr + 1, m(buf_ptr := 45), 0 - arg_int)
                              else (buf_ptr, m, arg_int)) in
         map_option (\<lambda>(buf2, m2). Inr (m2, buf2, ip + 1, m2 (ip + 1), k + 1)) (itoa a buf1 10 m1))
      else if index_char = 120 then
        map_option (\<lambda>(buf2, m2). Inr (m2, buf2, ip + 1, m2 (ip + 1), k + 1)) (itoa (args k) buf_ptr 16 m)
      else if index_char = 99 then
        (let m1 = m(buf_ptr := ucast (args k)) in Some (Inr (m1, buf_ptr + 1, ip + 1, m1 (ip + 1), k + 1)))
      else Some (Inr (m, buf_ptr, ip, index_char, k)))"

text \<open>The loop \<open>while (index_char)\<close> of \<open>vsprintf\<close>: a character other than \<open>%\<close> is
  copied, a \<open>%\<close> runs the \<open>switch\<close>.\<close>

partial_function (option) vsprintf_loop ::
  "bytes \<Rightarrow> u32 \<Rightarrow> u32 \<Rightarrow> u8 \<Rightarrow> (nat \<Rightarrow> u32) \<Rightarrow> nat \<Rightarrow> (fatal + bytes) option" where
  "vsprintf_loop m buf_ptr index_ptr index_char args k =
     (if index_char = 0 then Some (Inr m)
      else if index_char \<noteq> 37 then
        vsprintf_loop (m(buf_ptr := index_char)) (buf_ptr + 1) (index_ptr + 1)
          ((m(buf_ptr := index_char)) (index_ptr + 1)) args k
      else Option.bind (vsprintf_conv m buf_ptr index_ptr args k) (\<lambda>r.
        if isl r then Some (Inl (projl r))
        else (case projr r of (m1, b1, i1, c1, k1) \<Rightarrow> vsprintf_loop m1 b1 i1 c1 args k1)))"

text \<open>\<open>vsprintf(str, format, ap)\<close> returns \<open>strlen(str)\<close>; \<open>sprintf\<close> passes its
  arguments on.\<close>

definition vsprintf :: "bytes \<Rightarrow> u32 \<Rightarrow> u32 \<Rightarrow> (nat \<Rightarrow> u32) \<Rightarrow> (fatal + u32 \<times> bytes) option" where
  "vsprintf m str format args =
     Option.bind (vsprintf_loop m str format (m format) args 0) (\<lambda>r. case r of
       Inl e \<Rightarrow> Some (Inl e)
     | Inr m1 \<Rightarrow> map_option (map_sum id (\<lambda>n. (n, m1))) (strlen m1 str))"

definition sprintf :: "bytes \<Rightarrow> u32 \<Rightarrow> u32 \<Rightarrow> (nat \<Rightarrow> u32) \<Rightarrow> (fatal + u32 \<times> bytes) option" where
  "sprintf m buf format args = vsprintf m buf format args"

text \<open>\<open>printf\<close> up to its system call: the local \<open>char buf[1024] = {0}\<close> at the stack
  address \<open>buf\<close> is cleared, \<open>vsprintf\<close> fills it, and the result is the string that
  \<open>write(1, buf, strlen(buf))\<close> (in \<open>userprog/\<close>, not modelled) is given.\<close>

definition printf_buf :: "bytes \<Rightarrow> u32 \<Rightarrow> u32 \<Rightarrow> (nat \<Rightarrow> u32) \<Rightarrow> (fatal + u8 list \<times> bytes) option" where
  "printf_buf m buf format args =
     (let m0 = (\<lambda>a. if unat (a - buf) < 1024 then 0 else m a) in
      Option.bind (vsprintf m0 buf format args) (\<lambda>r. case r of
        Inl e \<Rightarrow> Some (Inl e)
      | Inr (_, m1) \<Rightarrow> map_option (map_sum id (\<lambda>n. (map (\<lambda>i. m1 (buf + of_nat i)) [0..<unat n], m1))) (strlen m1 buf)))"

text \<open>\<open>printk\<close> (\<open>src/lib/kernel/stdio_kernel.c\<close>): the same local buffer and
  \<open>vsprintf\<close>; \<open>console_put_str(buf)\<close> (console, not under \<open>src/\<close>) prints the bytes
  up to the first NUL, which are returned.\<close>

definition printk :: "bytes \<Rightarrow> u32 \<Rightarrow> u32 \<Rightarrow> (nat \<Rightarrow> u32) \<Rightarrow> (fatal + u8 list \<times> bytes) option" where
  "printk m buf format args =
     (let m0 = (\<lambda>a. if unat (a - buf) < 1024 then 0 else m a) in
      Option.bind (vsprintf m0 buf format args) (\<lambda>r. case r of
        Inl e \<Rightarrow> Some (Inl e)
      | Inr (_, m1) \<Rightarrow> map_option (\<lambda>p. Inr (map (\<lambda>i. m1 (buf + of_nat i)) [0..<unat (p - buf - 1)], m1))
                         (strlen_loop m1 buf)))"

section \<open>Reference rendering\<close>

text \<open>Bytes stored from an address on, and the digits of a number in a base, most
  significant first, with their characters and values.\<close>

fun store :: "bytes \<Rightarrow> u32 \<Rightarrow> u8 list \<Rightarrow> bytes" where
  "store m a [] = m"
| "store m a (d # ds) = store (m(a := d)) (a + 1) ds"

function digits :: "nat \<Rightarrow> nat \<Rightarrow> nat list" where
  "digits b n = (if b < 2 \<or> n < b then [n] else digits b (n div b) @ [n mod b])"
  by pat_completeness auto
termination by (relation "measure (\<lambda>(b, n). n)") auto

definition digit_char :: "nat \<Rightarrow> u8" where
  "digit_char d = of_nat (if d < 10 then d + 48 else d + 55)"

definition digit_val :: "u8 \<Rightarrow> nat" where
  "digit_val c = (if unat c < 65 then unat c - 48 else unat c - 55)"

text \<open>Example: the format \<open>"ab"\<close> at \<open>0x100\<close> and a buffer at \<open>0x200\<close> that still
  holds \<open>"xyz"\<close> from an earlier use.\<close>

definition ex_fmt_mem :: bytes where
  "ex_fmt_mem = (\<lambda>_. 0)(0x100 := 0x61, 0x101 := 0x62, 0x200 := 0x78, 0x201 := 0x79, 0x202 := 0x7a)"

declare digits.simps [simp del]

section \<open>Lemmas\<close>

lemma store_snoc: "store m a (ds @ [d]) = (store m a ds)(a + of_nat (length ds) := d)"
  by (induction ds arbitrary: m a) (simp_all add: algebra_simps)

lemma digits_less: "2 \<le> b \<Longrightarrow> d \<in> set (digits b n) \<Longrightarrow> d < b"
proof (induction b n rule: digits.induct)
  case (1 b n)
  then show ?case by (cases "n < b") (auto simp: digits.simps [of b n])
qed

lemma digits_value: "2 \<le> b \<Longrightarrow> foldl (\<lambda>acc d. acc * b + d) 0 (digits b n) = n"
proof (induction b n rule: digits.induct)
  case (1 b n)
  then show ?case by (cases "n < b") (simp_all add: digits.simps [of b n])
qed

lemma digits_ne: "digits b n \<noteq> []"
  by (simp add: digits.simps [of b n])

lemma digits_length: "2 \<le> b \<Longrightarrow> b ^ (length (digits b n) - 1) \<le> n \<or> n = 0"
proof (induction b n rule: digits.induct)
  case (1 b n)
  show ?case
  proof (cases "n < b")
    case True
    then show ?thesis by (auto simp: digits.simps [of b n])
  next
    case False
    have nz: "0 < n div b" using False "1.prems" by (simp add: div_greater_zero_iff)
    have "b ^ (length (digits b (n div b)) - 1) \<le> n div b" using 1 False nz by auto
    moreover obtain L where L: "length (digits b (n div b)) = Suc L"
      using digits_ne [of b "n div b"] by (cases "length (digits b (n div b))") simp_all
    ultimately have "b ^ L * b \<le> n div b * b" by (simp add: mult_le_mono1)
    then have "b ^ (length (digits b (n div b))) \<le> n div b * b" using L by (simp add: power_Suc2)
    then have "b ^ (length (digits b (n div b))) \<le> n" using div_times_less_eq_dividend [of n b] by linarith
    then show ?thesis using False "1.prems" by (simp add: digits.simps [of b n])
  qed
qed

lemma digit_val_char: "d < 16 \<Longrightarrow> digit_val (digit_char d) = d"
  by (auto simp: digit_val_def digit_char_def unat_of_nat)

lemma unat_ucast_u8_u32: "unat (ucast (c :: u8) :: u32) = unat c"
proof -
  have "unat c < 2 ^ LENGTH(8)" by (rule unsigned_less)
  then show ?thesis by (simp add: unsigned_ucast_eq take_bit_nat_eq_self_iff)
qed

lemma ucast_u32_u8: "unat (x :: u32) < 256 \<Longrightarrow> unat (ucast x :: u8) = unat x"
  by (simp add: unsigned_ucast_eq take_bit_nat_eq_self_iff)

lemma unat_digit_char: "d < 16 \<Longrightarrow> unat (digit_char d) = (if d < 10 then d + 48 else d + 55)"
  unfolding digit_char_def by (simp only: unat_of_nat) simp

lemma itoa_digit:
  fixes mm :: u32
  assumes "unat mm < 16"
  shows "(if mm < 10 then ucast (mm + 48) else ucast (mm - 10 + 65)) = digit_char (unat mm)"
proof (cases "mm < 10")
  case True
  then have e: "unat (mm + 48) = unat mm + 48" using assms by (simp add: unat_word_ariths)
  then have "unat (mm + 48) < 256" using assms by simp
  then have "unat (ucast (mm + 48) :: u8) = unat (mm + 48)" by (rule ucast_u32_u8)
  also have "\<dots> = unat (digit_char (unat mm))"
    using e True assms unat_digit_char [of "unat mm"] by (simp add: word_less_nat_alt)
  finally show ?thesis using True by (simp only: word_unat_eq_iff if_True)
next
  case False
  then have "10 \<le> unat mm" by (simp add: word_less_nat_alt)
  then have e: "unat (mm - 10 + 65) = unat mm + 55" using assms by (simp add: unat_word_ariths unat_sub_if_size)
  then have "unat (mm - 10 + 65) < 256" using assms by simp
  then have "unat (ucast (mm - 10 + 65) :: u8) = unat (mm - 10 + 65)" by (rule ucast_u32_u8)
  also have "\<dots> = unat (digit_char (unat mm))"
    using e False assms unat_digit_char [of "unat mm"] by (simp add: word_less_nat_alt)
  finally show ?thesis using False by (simp only: word_unat_eq_iff if_False)
qed

lemma itoa_digits:
  assumes b: "2 \<le> unat base" and b16: "unat base \<le> 16"
  shows "itoa val buf base m =
           Some (buf + of_nat (length (digits (unat base) (unat val))),
                 store m buf (map digit_char (digits (unat base) (unat val))))"
  using b
proof (induction "unat val" arbitrary: val rule: less_induct)
  case less
  define B where "B = unat base"
  have ub: "unat (ucast base :: u32) = B" by (simp add: B_def unat_ucast_u8_u32)
  have md: "unat (val mod ucast base) = unat val mod B" "unat (val div ucast base) = unat val div B"
    using ub by (simp_all add: unat_mod unat_div)
  have "0 < unat base" using less.prems by simp
  then have "unat val mod unat base < unat base" by (rule mod_less_divisor)
  then have lt: "unat (val mod ucast base) < 16" using md(1) b16 by (simp add: B_def)
  have dig: "(if val mod ucast base < 10 then ucast (val mod ucast base + 48)
              else ucast (val mod ucast base - 10 + 65)) = digit_char (unat val mod B)"
    using itoa_digit [OF lt] md(1) by (simp only:)
  have e: "itoa val buf base m =
             Option.bind (if val div ucast base \<noteq> 0 then itoa (val div ucast base) buf base m else Some (buf, m))
               (\<lambda>(p, m1). Some (p + 1, m1(p := digit_char (unat val mod B))))"
    by (subst itoa.simps) (simp only: Let_def dig)
  show ?case
  proof (cases "unat val < B")
    case True
    then have "val div ucast base = 0" using md(2) by (simp add: unat_eq_zero)
    then show ?thesis using True e less.prems
      by (simp add: digits.simps [of "unat base" "unat val"] B_def)
  next
    case False
    have pos: "0 < unat val div B" using False less.prems by (simp add: B_def div_greater_zero_iff)
    have q: "val div ucast base \<noteq> 0" "unat (val div ucast base) < unat val"
    proof -
      show "val div ucast base \<noteq> 0" using pos md(2) by (metis less_irrefl unsigned_0)
      have "0 < unat val" using pos by (metis div_0 less_irrefl neq0_conv)
      then have "unat val div unat base < unat val" using less.prems by (simp add: div_less_dividend)
      then show "unat (val div ucast base) < unat val" using md(2) by (simp add: B_def)
    qed
    have ih: "itoa (val div ucast base) buf base m =
                Some (buf + of_nat (length (digits B (unat val div B))),
                      store m buf (map digit_char (digits B (unat val div B))))"
      using less.hyps [OF q(2) less.prems] md(2) by (simp add: B_def)
    have "digits B (unat val) = digits B (unat val div B) @ [unat val mod B]"
      using False less.prems by (simp add: digits.simps [of "unat base" "unat val"] B_def)
    then show ?thesis using q(1) ih e
      by (simp add: store_snoc B_def algebra_simps)
  qed
qed

lemma digits_length_32:
  assumes b: "2 \<le> b" and n: "n < 2 ^ 32"
  shows "length (digits b n) \<le> 32"
proof (cases "n = 0")
  case True
  then show ?thesis using b by (simp add: digits.simps [of b 0])
next
  case False
  then have "b ^ (length (digits b n) - 1) \<le> n" using digits_length [OF b, of n] by simp
  moreover have "2 ^ (length (digits b n) - 1) \<le> b ^ (length (digits b n) - 1)"
    using b by (simp add: power_mono)
  ultimately have p: "2 ^ (length (digits b n) - 1) < (2 :: nat) ^ 32" using n by linarith
  have "length (digits b n) - 1 < 32" by (rule power_less_imp_less_exp [OF _ p]) simp
  then show ?thesis by linarith
qed

lemma store_outside: "(\<forall>j < length cs. x \<noteq> a + of_nat j) \<Longrightarrow> store m a cs x = m x"
proof (induction cs arbitrary: m a)
  case Nil
  then show ?case by simp
next
  case (Cons c cs)
  have "\<forall>j < length cs. x \<noteq> (a + 1) + of_nat j"
  proof (intro allI impI)
    fix j
    assume "j < length cs"
    then show "x \<noteq> (a + 1) + of_nat j" using Cons.prems [rule_format, of "Suc j"] by (simp add: add.assoc)
  qed
  moreover have "x \<noteq> a" using Cons.prems [rule_format, of 0] by simp
  ultimately show ?case using Cons.IH by simp
qed

lemma of_nat_u32_nz:
  assumes "0 < j" "j < 2 ^ 32"
  shows "(of_nat j :: u32) \<noteq> 0"
proof
  assume "(of_nat j :: u32) = 0"
  then have "unat (of_nat j :: u32) = 0" by simp
  then show False using assms unat_of_nat_u32 [OF assms(2)] by simp
qed

lemma store_inside: "i < length cs \<Longrightarrow> length cs \<le> 2 ^ 32 \<Longrightarrow> store m a cs (a + of_nat i) = cs ! i"
proof (induction cs arbitrary: m a i)
  case Nil
  then show ?case by simp
next
  case (Cons c cs)
  show ?case
  proof (cases i)
    case 0
    have "\<forall>j < length cs. a \<noteq> (a + 1) + of_nat j"
    proof (intro allI impI)
      fix j
      assume "j < length cs"
      then have "(of_nat (Suc j) :: u32) \<noteq> 0" using Cons.prems(2) by (intro of_nat_u32_nz) simp_all
      then show "a \<noteq> (a + 1) + of_nat j" by (simp add: add.assoc)
    qed
    then show ?thesis using 0 store_outside [of cs a "a + 1" "m(a := c)"] by simp
  next
    case (Suc i')
    then have "store (m(a := c)) (a + 1) cs ((a + 1) + of_nat i') = cs ! i'"
      using Cons.prems by (intro Cons.IH) simp_all
    then show ?thesis using Suc by (simp add: add.assoc)
  qed
qed

lemma vsprintf_loop_plain:
  assumes "\<forall>i<n. m (ip + of_nat i) \<noteq> 0 \<and> m (ip + of_nat i) \<noteq> 37" and "m (ip + of_nat n) = 0"
    and "\<forall>i \<le> n. \<forall>j < n. ip + of_nat i \<noteq> bp + of_nat j"
  shows "vsprintf_loop m bp ip (m ip) args k = Some (Inr (store m bp (map (\<lambda>i. m (ip + of_nat i)) [0..<n])))"
  using assms
proof (induction n arbitrary: m bp ip)
  case 0
  then show ?case by (simp add: vsprintf_loop.simps [of m bp ip])
next
  case (Suc n)
  define m1 where "m1 = m(bp := m ip)"
  have sh: "\<And>i. ip + 1 + of_nat i = ip + of_nat (Suc i)" "\<And>j. bp + 1 + of_nat j = bp + of_nat (Suc j)" by simp_all
  have c: "m ip \<noteq> 0" "m ip \<noteq> 37" using Suc.prems(1) [rule_format, of 0] by simp_all
  have rd: "m1 (ip + 1 + of_nat i) = m (ip + of_nat (Suc i))" if "i \<le> n" for i
  proof -
    have "ip + of_nat (Suc i) \<noteq> bp + of_nat 0" using Suc.prems(3) that by (meson Suc_le_mono zero_less_Suc)
    then show ?thesis by (simp add: m1_def sh(1))
  qed
  have p1: "\<forall>i<n. m1 (ip + 1 + of_nat i) \<noteq> 0 \<and> m1 (ip + 1 + of_nat i) \<noteq> 37"
    using Suc.prems(1) rd by auto
  have p2: "m1 (ip + 1 + of_nat n) = 0" using Suc.prems(2) rd [of n] by simp
  have p3: "\<forall>i \<le> n. \<forall>j < n. ip + 1 + of_nat i \<noteq> bp + 1 + of_nat j"
    using Suc.prems(3) by (auto simp only: sh Suc_le_mono Suc_less_eq)
  have "vsprintf_loop m1 (bp + 1) (ip + 1) (m1 (ip + 1)) args k =
          Some (Inr (store m1 (bp + 1) (map (\<lambda>i. m1 (ip + 1 + of_nat i)) [0..<n])))"
    using Suc.IH [OF p1 p2 p3] by simp
  also have "map (\<lambda>i. m1 (ip + 1 + of_nat i)) [0..<n] = map (\<lambda>i. m (ip + of_nat (Suc i))) [0..<n]"
    using rd by simp
  also have "store m1 (bp + 1) (map (\<lambda>i. m (ip + of_nat (Suc i))) [0..<n]) =
             store m bp (map (\<lambda>i. m (ip + of_nat i)) [0..<Suc n])"
  proof -
    have "[0..<Suc n] = 0 # map Suc [0..<n]" by (simp add: upt_conv_Cons map_Suc_upt del: upt_Suc)
    then show ?thesis by (simp add: m1_def comp_def)
  qed
  finally have r: "vsprintf_loop m1 (bp + 1) (ip + 1) (m1 (ip + 1)) args k =
          Some (Inr (store m bp (map (\<lambda>i. m (ip + of_nat i)) [0..<Suc n])))" .
  have u: "vsprintf_loop m bp ip (m ip) args k = vsprintf_loop m1 (bp + 1) (ip + 1) (m1 (ip + 1)) args k"
    using c by (subst vsprintf_loop.simps) (simp only: m1_def [symmetric] if_False not_False_eq_True if_True)
  show ?case using u r by simp
qed

lemma of_nat_u32_inj: "a < 2 ^ 32 \<Longrightarrow> b < 2 ^ 32 \<Longrightarrow> (of_nat a :: u32) = of_nat b \<Longrightarrow> a = b"
  by (metis unat_of_nat_u32)

subsection \<open>Properties of \<open>itoa\<close>\<close>

text \<open>C29: \<open>itoa\<close> in any base from 2 to 16 returns, writing at most 32 digit characters
  from the buffer pointer on and advancing the pointer past them; the characters are digits
  of the base, and reading them back (most significant first) gives the value.\<close>

theorem itoa_roundtrip:
  assumes b: "2 \<le> unat base" and b16: "unat base \<le> 16"
  shows "\<exists>ds. itoa val buf base m = Some (buf + of_nat (length ds), store m buf ds) \<and>
              foldl (\<lambda>acc c. acc * unat base + digit_val c) 0 ds = unat val \<and>
              list_all (\<lambda>c. c \<in> digit_char ` {..<unat base}) ds \<and> 1 \<le> length ds \<and> length ds \<le> 32"
proof -
  define ds where "ds = digits (unat base) (unat val)"
  have lt: "\<forall>d \<in> set ds. d < unat base" using digits_less [OF b] by (simp add: ds_def)
  have "foldl (\<lambda>acc c. acc * unat base + digit_val c) 0 (map digit_char ds) =
        foldl (\<lambda>acc d. acc * unat base + d) 0 ds"
    unfolding foldl_map using lt b16 by (intro foldl_cong) (auto simp: digit_val_char)
  also have "\<dots> = unat val" using digits_value [OF b] by (simp add: ds_def)
  finally have v: "foldl (\<lambda>acc c. acc * unat base + digit_val c) 0 (map digit_char ds) = unat val" .
  have l: "1 \<le> length ds" "length ds \<le> 32"
    using digits_ne [of "unat base" "unat val"] digits_length_32 [OF b, of "unat val"]
    by (simp_all add: ds_def Suc_le_eq unsigned_less)
  have la: "list_all (\<lambda>c. c \<in> digit_char ` {..<unat base}) (map digit_char ds)"
    using lt by (auto simp: list_all_iff)
  have "itoa val buf base m = Some (buf + of_nat (length (map digit_char ds)), store m buf (map digit_char ds))"
    using itoa_digits [OF b b16, of val buf m] by (simp add: ds_def)
  then show ?thesis using v l la by (intro exI [of _ "map digit_char ds"]) simp
qed

theorem itoa_roundtrip_witness:
  "\<exists>ds. itoa 255 0x1000 16 (\<lambda>_. 0) = Some (0x1000 + of_nat (length ds), store (\<lambda>_. 0) 0x1000 ds) \<and>
        foldl (\<lambda>acc c. acc * 16 + digit_val c) 0 ds = 255 \<and>
        list_all (\<lambda>c. c \<in> digit_char ` {..<16}) ds \<and> 1 \<le> length ds \<and> length ds \<le> 32"
  using itoa_roundtrip [of "16 :: u8" 255 "0x1000" "\<lambda>_. 0"] by simp

subsection \<open>Properties of \<open>vsprintf\<close>\<close>

text \<open>C6: \<open>vsprintf\<close> writes no terminating NUL. On a format of \<open>n\<close> plain characters
  (no \<open>%\<close>) that does not overlap the text it writes, it copies the characters to
  \<open>str\<close> and returns \<open>strlen(str)\<close>: when the buffer held \<open>d\<close> further non-zero bytes
  after the copied text, the result is \<open>n + d\<close>, not \<open>n\<close>, and those bytes stay.\<close>

theorem vsprintf_unterminated:
  assumes str: "str \<noteq> 0"
    and fmt: "\<forall>i<n. m (fmt + of_nat i) \<noteq> 0 \<and> m (fmt + of_nat i) \<noteq> 37" "m (fmt + of_nat n) = 0"
    and sep: "\<forall>i \<le> n. \<forall>j < n. fmt + of_nat i \<noteq> str + of_nat j"
    and tail: "\<forall>i<d. m (str + of_nat (n + i)) \<noteq> 0" "m (str + of_nat (n + d)) = 0"
    and len: "n + d < 2 ^ 32"
  shows "\<exists>m'. vsprintf m str fmt args = Some (Inr (of_nat (n + d), m')) \<and>
              (\<forall>i<n. m' (str + of_nat i) = m (fmt + of_nat i)) \<and>
              (\<forall>i<d. m' (str + of_nat (n + i)) = m (str + of_nat (n + i)))"
proof -
  define cs where "cs = map (\<lambda>i. m (fmt + of_nat i)) [0..<n]"
  define m' where "m' = store m str cs"
  have loop: "vsprintf_loop m str fmt (m fmt) args 0 = Some (Inr m')"
    using vsprintf_loop_plain [OF fmt sep] by (simp add: m'_def cs_def)
  have lc: "length cs = n" by (simp add: cs_def)
  have ins: "m' (str + of_nat i) = m (fmt + of_nat i)" if "i < n" for i
    using store_inside [of i cs m str] that lc len by (simp add: m'_def cs_def)
  have outs: "m' (str + of_nat (n + i)) = m (str + of_nat (n + i))" if "i \<le> d" for i
  proof -
    have "\<forall>j < length cs. str + of_nat (n + i) \<noteq> str + of_nat j"
    proof (intro allI impI notI)
      fix j
      assume j: "j < length cs" and e: "str + of_nat (n + i) = str + of_nat j"
      then have "n + i = j" using of_nat_u32_inj [of "n + i" j] len lc that by simp
      then show False using j lc by simp
    qed
    then show ?thesis by (simp add: m'_def store_outside)
  qed
  have nz: "\<forall>k < n + d. m' (str + of_nat k) \<noteq> 0"
  proof (intro allI impI)
    fix k
    assume k: "k < n + d"
    show "m' (str + of_nat k) \<noteq> 0"
    proof (cases "k < n")
      case True
      then show ?thesis using ins fmt(1) by simp
    next
      case False
      then obtain i where "k = n + i" "i < d" using k by (metis add_diff_inverse_nat add_less_cancel_left)
      then show ?thesis using outs [of i] tail(1) by simp
    qed
  qed
  have "m' (str + of_nat (n + d)) = 0" using outs [of d] tail(2) by simp
  then have "strlen_loop m' str = Some (str + of_nat (n + d) + 1)" using strlen_loop_first_nul nz by blast
  then have "strlen m' str = Some (Inr (of_nat (n + d)))" using str by (simp add: strlen_def)
  then show ?thesis using loop ins outs by (simp add: vsprintf_def)
qed

theorem vsprintf_unterminated_witness:
  "\<exists>m'. sprintf ex_fmt_mem 0x200 0x100 (\<lambda>_. 0) = Some (Inr (3, m')) \<and>
        m' 0x200 = 0x61 \<and> m' 0x201 = 0x62 \<and> m' 0x202 = 0x7a"
proof -
  have f1: "\<forall>i<2. ex_fmt_mem (0x100 + of_nat i) \<noteq> 0 \<and> ex_fmt_mem (0x100 + of_nat i) \<noteq> 37"
  proof (intro allI impI)
    fix i :: nat
    assume "i < 2"
    then have "i = 0 \<or> i = 1" by auto
    then show "ex_fmt_mem (0x100 + of_nat i) \<noteq> 0 \<and> ex_fmt_mem (0x100 + of_nat i) \<noteq> 37"
      by (auto simp: ex_fmt_mem_def)
  qed
  have f2: "ex_fmt_mem (0x100 + of_nat 2) = 0" by (simp add: ex_fmt_mem_def)
  have sp: "\<forall>i \<le> 2. \<forall>j < 2. (0x100 :: u32) + of_nat i \<noteq> 0x200 + of_nat j"
  proof (intro allI impI)
    fix i j :: nat
    assume "i \<le> 2" "j < 2"
    then have "i = 0 \<or> i = 1 \<or> i = 2" "j = 0 \<or> j = 1" by auto
    then show "(0x100 :: u32) + of_nat i \<noteq> 0x200 + of_nat j" by auto
  qed
  have t1: "\<forall>i<1. ex_fmt_mem (0x200 + of_nat (2 + i)) \<noteq> 0" by (simp add: ex_fmt_mem_def)
  have t2: "ex_fmt_mem (0x200 + of_nat (2 + 1)) = 0" by (simp add: ex_fmt_mem_def)
  obtain m' where r: "vsprintf ex_fmt_mem 0x200 0x100 (\<lambda>_. 0) = Some (Inr (of_nat (2 + 1), m'))"
    "\<forall>i<2. m' (0x200 + of_nat i) = ex_fmt_mem (0x100 + of_nat i)"
    "\<forall>i<1. m' (0x200 + of_nat (2 + i)) = ex_fmt_mem (0x200 + of_nat (2 + i))"
    using vsprintf_unterminated [OF _ f1 f2 sp t1 t2, of "\<lambda>_. 0"] by auto
  have "m' 0x200 = 0x61" using r(2) [rule_format, of 0] by (simp add: ex_fmt_mem_def)
  moreover have "m' 0x201 = 0x62" using r(2) [rule_format, of 1] by (simp add: ex_fmt_mem_def)
  moreover have "m' 0x202 = 0x7a" using r(3) [rule_format, of 0] by (simp add: ex_fmt_mem_def)
  ultimately show ?thesis using r(1) by (simp add: sprintf_def)
qed

end
