(* ===== verification/Bitmap.thy ===== *)
theory Bitmap
  imports Prelude
begin

unbundle bit_operations_syntax

section \<open>The bitmap (src/lib/kernel/bitmap.c)\<close>

text \<open>
  \<open>struct bitmap\<close> is a byte pointer \<open>bits\<close> and a length \<open>btmp_bytes_len\<close>.
  The pointer is modelled as the memory it points to, a function from byte offsets to
  bytes: offsets at and past \<open>btmp_bytes_len\<close> are the memory that follows the
  bitmap, which the C code can read. The operations are \<open>bitmap_init\<close>,
  \<open>bitmap_scan_test\<close>, \<open>bitmap_scan\<close> (its three loops are
  \<open>skip_full_bytes\<close>, \<open>first_zero_bit\<close> and \<open>scan_run\<close>) and
  \<open>bitmap_set\<close>. \<open>bitmap_scan\<close> is shown equal to a reference first-fit search
  (\<open>first_fit\<close>), which exposes that for runs longer than one bit it looks one bit
  past the end of the bitmap.
\<close>

record bitmap =
  btmp_bytes_len :: nat
  bits :: "nat \<Rightarrow> u8"

definition bitmap_init :: "bitmap \<Rightarrow> bitmap" where
  "bitmap_init b = b\<lparr>bits := (\<lambda>i. if i < btmp_bytes_len b then 0 else bits b i)\<rparr>"

definition bitmap_scan_test :: "bitmap \<Rightarrow> nat \<Rightarrow> bool" where
  "bitmap_scan_test b bit_idx =
     (bits b (bit_idx div 8) AND push_bit (bit_idx mod 8) 1 \<noteq> 0)"

function skip_full_bytes :: "bitmap \<Rightarrow> nat \<Rightarrow> nat" where
  "skip_full_bytes b idx_byte =
     (if bits b idx_byte = 0xff \<and> idx_byte < btmp_bytes_len b
      then skip_full_bytes b (Suc idx_byte) else idx_byte)"
  by pat_completeness auto
termination
  by (relation "measure (\<lambda>(b, i). btmp_bytes_len b - i)") auto

function first_zero_bit :: "u8 \<Rightarrow> nat \<Rightarrow> nat" where
  "first_zero_bit byte idx_bit =
     (if push_bit idx_bit 1 AND byte \<noteq> 0 then first_zero_bit byte (Suc idx_bit) else idx_bit)"
  by pat_completeness auto
termination
  by (relation "measure (\<lambda>(byte, k). 8 - k)") (auto dest: bit_imp_le_length)

declare skip_full_bytes.simps [simp del] first_zero_bit.simps [simp del]

function scan_run :: "bitmap \<Rightarrow> nat \<Rightarrow> nat \<Rightarrow> nat \<Rightarrow> nat \<Rightarrow> int" where
  "scan_run b cnt bit_left next_bit count =
     (if bit_left = 0 then -1
      else
        let count' = (if \<not> bitmap_scan_test b next_bit then Suc count else 0)
        in if count' = cnt then int (next_bit + 1 - cnt)
           else scan_run b cnt (bit_left - 1) (Suc next_bit) count')"
  by pat_completeness auto
termination
  by (relation "measure (\<lambda>(b, cnt, bit_left, next_bit, count). bit_left)") auto

declare scan_run.simps [simp del]

definition bitmap_scan :: "bitmap \<Rightarrow> nat \<Rightarrow> fatal + int" where
  "bitmap_scan b cnt =
     (let idx_byte = skip_full_bytes b 0 in
      if \<not> idx_byte < btmp_bytes_len b
      then Inl (ASSERT_failed ''idx_byte < btmp->btmp_bytes_len'')
      else
        let idx_bit = first_zero_bit (bits b idx_byte) 0;
            bit_idx_start = idx_byte * 8 + idx_bit
        in if cnt = 1 then Inr (int bit_idx_start)
           else
             let bit_left = u32_sub ((btmp_bytes_len b * 8) mod 2 ^ 32) bit_idx_start
             in if bit_left < u32_sub cnt 1 then Inr (-1)
                else Inr (scan_run b cnt bit_left (bit_idx_start + 1) 1))"

definition bitmap_set :: "bitmap \<Rightarrow> nat \<Rightarrow> int \<Rightarrow> fatal + bitmap" where
  "bitmap_set b bit_idx value =
     (if \<not> (value = 0 \<or> value = 1) then Inl (ASSERT_failed ''value == 0 || value == 1'')
      else
        let byte_idx = bit_idx div 8; bit_odd = bit_idx mod 8 in
        if value = 1
        then Inr (b\<lparr>bits := (bits b)(byte_idx := bits b byte_idx OR push_bit bit_odd 1)\<rparr>)
        else Inr (b\<lparr>bits := (bits b)(byte_idx := bits b byte_idx AND NOT (push_bit bit_odd 1))\<rparr>))"

text \<open>Well-formedness: the bit count fits the \<open>int\<close> start index the C code returns.\<close>

definition bitmap_wf :: "bitmap \<Rightarrow> bool" where
  "bitmap_wf b \<longleftrightarrow> btmp_bytes_len b * 8 < 2 ^ 31"

text \<open>Reference: the leftmost window of \<open>cnt\<close> clear bits inside the first \<open>n\<close> bits.\<close>

definition first_fit :: "(nat \<Rightarrow> bool) \<Rightarrow> nat \<Rightarrow> nat \<Rightarrow> nat option" where
  "first_fit used n cnt = find (\<lambda>s. list_all (\<lambda>i. \<not> used (s + i)) [0..<cnt]) [0..<Suc n - cnt]"

definition bitmap_full :: "bitmap \<Rightarrow> bool" where
  "bitmap_full b \<longleftrightarrow> list_all (\<lambda>i. bits b i = 0xff) [0..<btmp_bytes_len b]"

text \<open>
  \<open>clear_run b j\<close> is the number of consecutive clear bits that end just before bit
  \<open>j\<close>: the quantity the \<open>count\<close> variable of \<open>bitmap_scan\<close> tracks.
\<close>

fun clear_run :: "bitmap \<Rightarrow> nat \<Rightarrow> nat" where
  "clear_run b 0 = 0"
| "clear_run b (Suc j) = (if bitmap_scan_test b j then 0 else Suc (clear_run b j))"

subsection \<open>Lemmas\<close>

lemma bitmap_scan_test_bit: "bitmap_scan_test b i = bit (bits b (i div 8)) (i mod 8)"
  by (simp add: bitmap_scan_test_def)

lemma skip_full_bytes_spec:
  "skip_full_bytes b i = (case find (\<lambda>k. bits b k \<noteq> 0xff) [i..<btmp_bytes_len b] of
                            None \<Rightarrow> max i (btmp_bytes_len b) | Some k \<Rightarrow> k)"
proof (induction b i rule: skip_full_bytes.induct)
  case (1 b i)
  show ?case
  proof (cases "i < btmp_bytes_len b")
    case True
    then have "[i..<btmp_bytes_len b] = i # [Suc i..<btmp_bytes_len b]"
      by (simp add: upt_conv_Cons)
    with True "1.IH" show ?thesis
      by (auto simp: skip_full_bytes.simps [of b i] max_def)
  next
    case False
    then show ?thesis by (simp add: skip_full_bytes.simps [of b i])
  qed
qed

lemma first_zero_bit_le: "\<not> bit byte k \<Longrightarrow> i \<le> k \<Longrightarrow> first_zero_bit byte i \<le> k"
proof (induction byte i rule: first_zero_bit.induct)
  case (1 byte i)
  then show ?case
    by (subst first_zero_bit.simps) (cases "i = k"; auto)
qed

lemma first_zero_bit_clear: "\<not> bit byte (first_zero_bit byte i)"
proof (induction byte i rule: first_zero_bit.induct)
  case (1 byte i)
  then show ?case by (subst first_zero_bit.simps) auto
qed

lemma first_zero_bit_below:
  "i \<le> j \<Longrightarrow> j < first_zero_bit byte i \<Longrightarrow> bit byte j"
proof (induction byte i rule: first_zero_bit.induct)
  case (1 byte i)
  show ?case
  proof (cases "bit byte i")
    case True
    with "1" show ?thesis
      by (cases "i = j") (auto simp: first_zero_bit.simps [of byte i])
  next
    case False
    with "1.prems" show ?thesis by (simp add: first_zero_bit.simps [of byte i])
  qed
qed

lemma clear_run_le: "clear_run b j \<le> j"
  by (induction j) auto

lemma clear_run_window:
  "(cnt \<le> clear_run b (s + cnt)) = list_all (\<lambda>i. \<not> bitmap_scan_test b (s + i)) [0..<cnt]"
  by (induction cnt) auto

lemma clear_run_first_fit:
  "map_option (\<lambda>j. j - cnt) (find (\<lambda>j. cnt \<le> clear_run b j) [0..<Suc n])
     = first_fit (bitmap_scan_test b) n cnt"
proof -
  have "find (\<lambda>j. cnt \<le> clear_run b j) [0..<Suc n] = find (\<lambda>j. cnt \<le> clear_run b j) [cnt..<Suc n]"
    by (rule find_upt_from [symmetric]) (meson clear_run_le le_trans not_le)
  also have "[cnt..<Suc n] = map (\<lambda>s. s + cnt) [0..<Suc n - cnt]"
    by (simp add: map_add_upt)
  finally show ?thesis
    by (simp add: find_map first_fit_def clear_run_window option.map_comp comp_def add.commute
        option.map_ident)
qed

lemma scan_run_find:
  "clear_run b nb < cnt \<Longrightarrow>
   scan_run b cnt left nb (clear_run b nb) =
     (case find (\<lambda>j. cnt \<le> clear_run b j) [Suc nb..<Suc nb + left] of
        None \<Rightarrow> -1 | Some j \<Rightarrow> int (j - cnt))"
proof (induction left arbitrary: nb)
  case 0
  then show ?case by (simp add: scan_run.simps)
next
  case (Suc left)
  have cr: "(if \<not> bitmap_scan_test b nb then Suc (clear_run b nb) else 0) = clear_run b (Suc nb)"
    by simp
  have unfold: "scan_run b cnt (Suc left) nb (clear_run b nb)
      = (if clear_run b (Suc nb) = cnt then int (nb + 1 - cnt)
         else scan_run b cnt left (Suc nb) (clear_run b (Suc nb)))"
    by (simp only: scan_run.simps [of b cnt "Suc left"] Let_def cr) simp
  have list: "[Suc nb..<Suc nb + Suc left] = Suc nb # [Suc (Suc nb)..<Suc (Suc nb) + left]"
    by (simp add: upt_conv_Cons)
  have step: "clear_run b (Suc nb) \<le> cnt"
    using Suc.prems by simp
  show ?case
  proof (cases "clear_run b (Suc nb) = cnt")
    case True
    then have "find (\<lambda>j. cnt \<le> clear_run b j) [Suc nb..<Suc nb + Suc left] = Some (Suc nb)"
      by (simp only: list find.simps order.refl if_True)
    with True show ?thesis by (simp only: unfold if_True option.case) simp
  next
    case False
    with step have lt: "clear_run b (Suc nb) < cnt" by simp
    then have "\<not> cnt \<le> clear_run b (Suc nb)" by simp
    then have "find (\<lambda>j. cnt \<le> clear_run b j) [Suc nb..<Suc nb + Suc left]
        = find (\<lambda>j. cnt \<le> clear_run b j) [Suc (Suc nb)..<Suc (Suc nb) + left]"
      by (simp only: list find.simps if_False)
    with False Suc.IH [OF lt] show ?thesis by (simp only: unfold if_False)
  qed
qed

lemma clear_run_bound:
  assumes "\<forall>i < st. bitmap_scan_test b i"
  shows "clear_run b j \<le> j - st"
proof (induction j)
  case 0
  then show ?case by simp
next
  case (Suc j)
  show ?case
  proof (cases "bitmap_scan_test b j")
    case False
    with assms have "st \<le> j" by (meson not_less)
    with Suc.IH False show ?thesis by (simp add: Suc_diff_le)
  qed simp
qed

lemma bitmap_full_skip: "bitmap_full b = (\<not> skip_full_bytes b 0 < btmp_bytes_len b)"
  by (auto simp: bitmap_full_def skip_full_bytes_spec find_None_iff list_all_iff
      split: option.splits dest: find_Some_iff [THEN iffD1])

lemma scan_start:
  assumes "\<not> bitmap_full b"
  defines "ib \<equiv> skip_full_bytes b 0"
  defines "st \<equiv> ib * 8 + first_zero_bit (bits b ib) 0"
  shows "ib < btmp_bytes_len b" and "\<not> bitmap_scan_test b st"
    and "\<forall>i < st. bitmap_scan_test b i" and "st < 8 * btmp_bytes_len b"
proof -
  from assms(1) have "find (\<lambda>k. bits b k \<noteq> 0xff) [0..<btmp_bytes_len b] \<noteq> None"
    by (auto simp: bitmap_full_def find_None_iff list_all_iff)
  then obtain k where k: "find (\<lambda>k. bits b k \<noteq> 0xff) [0..<btmp_bytes_len b] = Some k"
    by blast
  then have ib: "ib = k" by (simp add: ib_def skip_full_bytes_spec)
  from k have klen: "k < btmp_bytes_len b" and kbyte: "bits b k \<noteq> 0xff"
    and full_below: "\<forall>j < k. bits b j = 0xff"
    by (auto simp: find_Some_iff)
  show "ib < btmp_bytes_len b" using ib klen by simp
  define k0 where "k0 = first_zero_bit (bits b ib) 0"
  from kbyte ib obtain k' where "k' < 8" "\<not> bit (bits b ib) k'"
    by (auto simp: byte_all_ones_iff)
  then have k0_lt: "k0 < 8"
    using first_zero_bit_le [of "bits b ib" k' 0] by (simp add: k0_def)
  have st: "st = ib * 8 + k0" by (simp add: st_def k0_def)
  show "\<not> bitmap_scan_test b st"
    using k0_lt first_zero_bit_clear [of "bits b ib" 0]
    by (simp add: bitmap_scan_test_bit st k0_def)
  show "\<forall>i < st. bitmap_scan_test b i"
  proof (intro allI impI)
    fix i assume "i < st"
    then have "i < Suc ib * 8" using k0_lt by (simp add: st)
    then have "i div 8 \<le> ib" using less_mult_imp_div_less by fastforce
    moreover have "i div 8 * 8 + i mod 8 = i" by (rule div_mult_mod_eq)
    ultimately have "i div 8 < ib \<or> (i div 8 = ib \<and> i mod 8 < k0)"
      using \<open>i < st\<close> unfolding st by linarith
    then show "bitmap_scan_test b i"
    proof
      assume "i div 8 < ib"
      with full_below ib show ?thesis
        by (simp add: bitmap_scan_test_bit byte_all_ones_iff)
    next
      assume "i div 8 = ib \<and> i mod 8 < k0"
      then show ?thesis
        using first_zero_bit_below [of 0 "i mod 8" "bits b ib"]
        by (simp add: bitmap_scan_test_bit k0_def)
    qed
  qed
  show "st < 8 * btmp_bytes_len b"
    using ib klen k0_lt by (simp add: st)
qed

lemma first_fit_1:
  assumes "\<forall>i < st. bitmap_scan_test b i" "\<not> bitmap_scan_test b st" "st < n"
  shows "first_fit (bitmap_scan_test b) n 1 = Some st"
proof -
  have "find (\<lambda>s. \<not> bitmap_scan_test b s) [st..<n] = Some st"
    using assms by (simp add: find_upt_Cons)
  moreover have "find (\<lambda>s. \<not> bitmap_scan_test b s) [st..<n] = find (\<lambda>s. \<not> bitmap_scan_test b s) [0..<n]"
    using assms(1) by (intro find_upt_from) simp
  ultimately show ?thesis by (simp add: first_fit_def)
qed

lemma scan_run_first_fit:
  assumes below: "\<forall>i < st. bitmap_scan_test b i" and clear: "\<not> bitmap_scan_test b st"
    and cnt: "2 \<le> cnt" and fit: "cnt - 1 \<le> n - st" and st_n: "st < n"
  shows "scan_run b cnt (n - st) (st + 1) 1
           = (case first_fit (bitmap_scan_test b) (Suc n) cnt of None \<Rightarrow> -1 | Some s \<Rightarrow> int s)"
proof -
  let ?P = "\<lambda>j. cnt \<le> clear_run b j"
  have cr_st: "clear_run b st = 0"
    using clear_run_bound [OF below, of st] by simp
  then have one: "clear_run b (Suc st) = 1" using clear by simp
  have run: "scan_run b cnt (n - st) (st + 1) 1
        = (case find ?P [Suc (Suc st)..<Suc (Suc st) + (n - st)] of
             None \<Rightarrow> -1 | Some j \<Rightarrow> int (j - cnt))"
    using scan_run_find [of b "Suc st" cnt "n - st"] one cnt by simp
  have upt: "[Suc (Suc st)..<Suc (Suc st) + (n - st)] = [Suc (Suc st)..<Suc (Suc n)]"
    using st_n by simp
  have skip: "find ?P [Suc (Suc st)..<Suc (Suc n)] = find ?P [0..<Suc (Suc n)]"
  proof (rule find_upt_from, intro allI impI)
    fix j assume "j < Suc (Suc st)"
    then have "clear_run b j \<le> 1" using clear_run_bound [OF below, of j] by simp
    with cnt show "\<not> ?P j" by simp
  qed
  show ?thesis
    unfolding run upt skip clear_run_first_fit [symmetric]
    by (simp split: option.splits)
qed

lemma first_fit_none:
  assumes below: "\<forall>i < st. bitmap_scan_test b i" and cnt: "1 \<le> cnt"
    and short: "n - st < cnt"
  shows "first_fit (bitmap_scan_test b) n cnt = None"
proof -
  have "\<forall>j<Suc n. clear_run b j < cnt"
  proof (intro allI impI)
    fix j assume "j < Suc n"
    then have "j - st \<le> n - st" by simp
    with clear_run_bound [OF below, of j] short show "clear_run b j < cnt" by linarith
  qed
  then have "find (\<lambda>j. cnt \<le> clear_run b j) [0..<Suc n] = None"
    unfolding find_None_iff by (auto simp: not_le)
  then show ?thesis by (simp add: clear_run_first_fit [symmetric])
qed

lemma bitmap_scan_spec:
  assumes wf: "bitmap_wf b" and cnt32: "cnt < 2 ^ 32"
  shows "bitmap_scan b cnt =
    (if bitmap_full b then Inl (ASSERT_failed ''idx_byte < btmp->btmp_bytes_len'')
     else if cnt = 0 then Inr (-1)
     else Inr (case first_fit (bitmap_scan_test b)
                      (if cnt = 1 then 8 * btmp_bytes_len b else Suc (8 * btmp_bytes_len b)) cnt of
                 None \<Rightarrow> -1 | Some s \<Rightarrow> int s))"
proof (cases "bitmap_full b")
  case True
  then show ?thesis by (simp add: bitmap_scan_def bitmap_full_skip Let_def)
next
  case False
  define ib where "ib = skip_full_bytes b 0"
  define st where "st = ib * 8 + first_zero_bit (bits b ib) 0"
  note start = scan_start [OF False, folded ib_def, folded st_def]
  have len: "btmp_bytes_len b * 8 < 2 ^ 31" using wf by (simp add: bitmap_wf_def)
  then have len_mod: "btmp_bytes_len b * 8 mod 2 ^ 32 = 8 * btmp_bytes_len b" by simp
  have left: "u32_sub (btmp_bytes_len b * 8 mod 4294967296) st = 8 * btmp_bytes_len b - st"
    using start(4) len by (simp add: len_mod)
  have scan: "bitmap_scan b cnt =
      (if cnt = 1 then Inr (int st)
       else if 8 * btmp_bytes_len b - st < u32_sub cnt 1 then Inr (-1)
       else Inr (scan_run b cnt (8 * btmp_bytes_len b - st) (st + 1) 1))"
    using start(1) by (simp add: bitmap_scan_def Let_def left flip: ib_def st_def)
  consider "cnt = 0" | "cnt = 1" | "2 \<le> cnt" by linarith
  then show ?thesis
  proof cases
    case 1
    have "8 * btmp_bytes_len b - st < 4294967295" using len by simp
    with 1 show ?thesis using False scan by simp
  next
    case 2
    have "first_fit (bitmap_scan_test b) (8 * btmp_bytes_len b) 1 = Some st"
      using start by (intro first_fit_1) auto
    with 2 show ?thesis using False scan by simp
  next
    case 3
    then have sub: "u32_sub cnt 1 = cnt - 1" "u32_sub cnt (Suc 0) = cnt - 1"
      using cnt32 by simp_all
    show ?thesis
    proof (cases "8 * btmp_bytes_len b - st < cnt - 1")
      case True
      then have "first_fit (bitmap_scan_test b) (Suc (8 * btmp_bytes_len b)) cnt = None"
        using 3 start by (intro first_fit_none [of st]) auto
      with True 3 False show ?thesis by (simp add: scan sub)
    next
      case False
      have "scan_run b cnt (8 * btmp_bytes_len b - st) (st + 1) 1
          = (case first_fit (bitmap_scan_test b) (Suc (8 * btmp_bytes_len b)) cnt of
               None \<Rightarrow> -1 | Some s \<Rightarrow> int s)"
        using 3 False start by (intro scan_run_first_fit) auto
      with 3 False \<open>\<not> bitmap_full b\<close> show ?thesis
        by (simp add: scan sub)
    qed
  qed
qed

lemma first_fit_Some:
  "first_fit used n cnt = Some s \<Longrightarrow> s + cnt \<le> n \<and> (\<forall>i<cnt. \<not> used (s + i))"
  by (auto simp: first_fit_def find_Some_iff list_all_iff)

lemma bitmap_set_Inr:
  "(bitmap_set b i v = Inr b') \<longleftrightarrow> (v = 0 \<or> v = 1) \<and>
     b' = b\<lparr>bits := (bits b)(i div 8 := if v = 1 then bits b (i div 8) OR push_bit (i mod 8) 1
                                   else bits b (i div 8) AND NOT (push_bit (i mod 8) 1))\<rparr>"
  by (auto simp: bitmap_set_def Let_def)

lemma div_mod_8_eq: "(j = i) = (j div 8 = i div 8 \<and> j mod 8 = (i::nat) mod 8)"
  by (metis div_mult_mod_eq)

lemma bitmap_set_test:
  assumes "bitmap_set b i v = Inr b'"
  shows "bitmap_scan_test b' j = (if j = i then v = 1 else bitmap_scan_test b j)"
  using assms
  by (auto simp: bitmap_set_Inr bitmap_scan_test_bit div_mod_8_eq [of j i])

lemma bitmap_set_len: "bitmap_set b i v = Inr b' \<Longrightarrow> btmp_bytes_len b' = btmp_bytes_len b"
  by (auto simp: bitmap_set_Inr)

text \<open>Setting a clear bit and clearing it again gives back the bitmap, byte for byte.\<close>

lemma bitmap_set_clear_restore:
  assumes "\<not> bitmap_scan_test b i"
    and "bitmap_set b i 1 = Inr b1" and "bitmap_set b1 i 0 = Inr b2"
  shows "b2 = b"
proof -
  have "bits b2 = bits b"
  proof
    fix k
    show "bits b2 k = bits b k"
    proof (cases "k = i div 8")
      case True
      with assms show ?thesis
        by (auto simp: bitmap_set_Inr bitmap_scan_test_bit or_exp_and_not_exp)
    next
      case False
      with assms show ?thesis by (auto simp: bitmap_set_Inr)
    qed
  qed
  with assms(2,3) show ?thesis by (auto simp: bitmap_set_Inr)
qed

lemma bitmap_init_clear:
  assumes "i < 8 * btmp_bytes_len b"
  shows "\<not> bitmap_scan_test (bitmap_init b) i"
proof -
  have "i div 8 < btmp_bytes_len b" using assms by (simp add: div_less_iff_less_mult mult.commute)
  then show ?thesis by (simp add: bitmap_init_def bitmap_scan_test_bit)
qed

text \<open>A bitmap is determined by its length and the values of its bits.\<close>

lemma bitmap_eqI:
  assumes "btmp_bytes_len b' = btmp_bytes_len b" and "\<forall>j. bitmap_scan_test b' j = bitmap_scan_test b j"
  shows "b' = b"
proof -
  have "bits b' k = bits b k" for k
  proof (rule bit_eqI)
    fix n assume "possible_bit TYPE(8 word) n"
    then have "n < 8" by simp
    then show "bit (bits b' k) n = bit (bits b k) n"
      using assms(2) [rule_format, of "k * 8 + n"] by (simp add: bitmap_scan_test_bit)
  qed
  with assms(1) show ?thesis by (cases b, cases b') auto
qed

lemma bitmap_scan_one:
  assumes "bitmap_wf b" and "\<not> bitmap_full b"
  shows "\<exists>st. bitmap_scan b 1 = Inr (int st) \<and> st < 8 * btmp_bytes_len b \<and>
           \<not> bitmap_scan_test b st \<and> (\<forall>i < st. bitmap_scan_test b i)"
proof -
  define st where "st = skip_full_bytes b 0 * 8 + first_zero_bit (bits b (skip_full_bytes b 0)) 0"
  note start = scan_start [OF assms(2), folded st_def]
  then have "first_fit (bitmap_scan_test b) (8 * btmp_bytes_len b) 1 = Some st"
    by (intro first_fit_1) auto
  then have "bitmap_scan b 1 = Inr (int st)"
    using bitmap_scan_spec [OF assms(1), of 1] assms(2) by simp
  with start show ?thesis by blast
qed

lemma bitmap_scan_full:
  "bitmap_full b \<Longrightarrow> bitmap_scan b cnt = Inl (ASSERT_failed ''idx_byte < btmp->btmp_bytes_len'')"
  by (simp add: bitmap_scan_def bitmap_full_skip Let_def)

subsection \<open>Properties of the bitmap\<close>

text \<open>
  C1. \<open>bitmap_scan\<close> is a first-fit search: on a bitmap with no clear byte it stops the
  machine (a failed \<open>ASSERT\<close>), for \<open>cnt = 0\<close> it returns \<open>-1\<close>, and otherwise
  it returns the start of the leftmost run of \<open>cnt\<close> clear bits, or \<open>-1\<close> if there
  is none. For \<open>cnt = 1\<close> the run lies in the \<open>8 * btmp_bytes_len\<close> bits of the bitmap;
  for \<open>cnt > 1\<close> the search range is one bit longer, including the first bit after it.
\<close>

theorem bitmap_scan_first_fit:
  "bitmap_wf b \<Longrightarrow> cnt < 2 ^ 32 \<Longrightarrow>
   bitmap_scan b cnt =
    (if bitmap_full b then Inl (ASSERT_failed ''idx_byte < btmp->btmp_bytes_len'')
     else if cnt = 0 then Inr (-1)
     else Inr (case first_fit (bitmap_scan_test b)
                      (if cnt = 1 then 8 * btmp_bytes_len b else Suc (8 * btmp_bytes_len b)) cnt of
                 None \<Rightarrow> -1 | Some s \<Rightarrow> int s))"
  by (rule bitmap_scan_spec)

theorem bitmap_scan_first_fit_witness:
  "bitmap_wf \<lparr>btmp_bytes_len = 2, bits = (\<lambda>_. 0)(0 := 0xff, 1 := 0x03)\<rparr> \<and> (3::nat) < 2 ^ 32 \<and>
   bitmap_scan \<lparr>btmp_bytes_len = 2, bits = (\<lambda>_. 0)(0 := 0xff, 1 := 0x03)\<rparr> 3 = Inr 10"
proof -
  let ?b = "\<lparr>btmp_bytes_len = 2, bits = (\<lambda>_. 0 :: u8)(0 := 0xff, 1 := 0x03)\<rparr>"
  have wf: "bitmap_wf ?b" by (simp add: bitmap_wf_def)
  have "first_fit (bitmap_scan_test ?b) 17 3 = Some 10"
    by (simp add: first_fit_def bitmap_scan_test_def upt_rec)
  moreover have "\<not> bitmap_full ?b" by (simp add: bitmap_full_def upt_rec)
  ultimately show ?thesis
    using bitmap_scan_first_fit [OF wf, of 3] wf by simp
qed

text \<open>
  C2. A successful \<open>bitmap_scan\<close> returns the start \<open>s\<close> of \<open>cnt\<close> bits that are
  all clear when the call starts; the run ends at most one bit past the bitmap, and inside it
  whenever the first bit after the bitmap is set.
\<close>

theorem bitmap_scan_run_clear:
  "bitmap_wf b \<Longrightarrow> cnt < 2 ^ 32 \<Longrightarrow> bitmap_scan b cnt = Inr r \<Longrightarrow> 0 \<le> r \<Longrightarrow>
   (\<forall>i<cnt. \<not> bitmap_scan_test b (nat r + i)) \<and> 0 < cnt \<and>
   nat r + cnt \<le> Suc (8 * btmp_bytes_len b) \<and>
   (bitmap_scan_test b (8 * btmp_bytes_len b) \<longrightarrow> nat r + cnt \<le> 8 * btmp_bytes_len b)"
proof -
  assume wf: "bitmap_wf b" and c32: "cnt < 2 ^ 32" and ret: "bitmap_scan b cnt = Inr r"
    and pos: "0 \<le> r"
  let ?n = "if cnt = 1 then 8 * btmp_bytes_len b else Suc (8 * btmp_bytes_len b)"
  from ret pos bitmap_scan_spec [OF wf c32] obtain s where
    fit: "first_fit (bitmap_scan_test b) ?n cnt = Some s" and r: "r = int s" and c0: "0 < cnt"
    by (auto split: if_splits option.splits)
  from first_fit_Some [OF fit] have run: "\<forall>i<cnt. \<not> bitmap_scan_test b (s + i)"
    and le: "s + cnt \<le> ?n" by auto
  have guard: "nat r + cnt \<le> 8 * btmp_bytes_len b" if "bitmap_scan_test b (8 * btmp_bytes_len b)"
  proof (rule ccontr)
    assume "\<not> nat r + cnt \<le> 8 * btmp_bytes_len b"
    with le r c0 have "s + (cnt - 1) = 8 * btmp_bytes_len b" by (auto split: if_splits)
    with run c0 that show False by (metis diff_less zero_less_one)
  qed
  show ?thesis using run le r c0 guard by (auto split: if_splits)
qed

theorem bitmap_scan_run_clear_witness:
  "bitmap_wf \<lparr>btmp_bytes_len = 2, bits = (\<lambda>_. 0)(0 := 0xff, 1 := 0x03)\<rparr> \<and> (3::nat) < 2 ^ 32 \<and>
   bitmap_scan \<lparr>btmp_bytes_len = 2, bits = (\<lambda>_. 0)(0 := 0xff, 1 := 0x03)\<rparr> 3 = Inr 10 \<and>
   (0::int) \<le> 10 \<and>
   \<not> bitmap_scan_test \<lparr>btmp_bytes_len = 2, bits = (\<lambda>_. 0)(0 := 0xff, 1 := 0x03)\<rparr> 12"
proof -
  let ?b = "\<lparr>btmp_bytes_len = 2, bits = (\<lambda>_. 0 :: u8)(0 := 0xff, 1 := 0x03)\<rparr>"
  have wf: "bitmap_wf ?b" by (simp add: bitmap_wf_def)
  have scan: "bitmap_scan ?b 3 = Inr 10"
    by (simp add: bitmap_scan_def skip_full_bytes.simps first_zero_bit.simps scan_run.simps
        bitmap_scan_test_def)
  have run: "\<forall>i<3. \<not> bitmap_scan_test ?b (nat 10 + i)"
    using bitmap_scan_run_clear [OF wf _ scan] by simp
  have "\<not> bitmap_scan_test ?b (nat 10 + 2)" by (rule run [rule_format]) simp
  then show ?thesis using wf scan by simp
qed

text \<open>
  Example of C1's search range: the run \<open>bitmap_scan\<close> returns can end past the bitmap: on a one-byte bitmap whose
  bits 0 to 6 are set, followed in memory by a clear bit, a request for two bits returns bit
  7, so the run is bits 7 and 8 and bit 8 is not part of the bitmap. The bit count
  \<open>bit_left\<close> counts the start bit, but the loop starts one bit after it.
\<close>

theorem bitmap_scan_overrun:
  "bitmap_wf \<lparr>btmp_bytes_len = 1, bits = (\<lambda>_. 0)(0 := 0x7f)\<rparr> \<and>
   bitmap_scan \<lparr>btmp_bytes_len = 1, bits = (\<lambda>_. 0)(0 := 0x7f)\<rparr> 2 = Inr 7 \<and>
   8 * btmp_bytes_len \<lparr>btmp_bytes_len = 1, bits = (\<lambda>_. 0 :: u8)(0 := 0x7f)\<rparr> < 7 + 2"
  by (simp add: bitmap_wf_def bitmap_scan_def skip_full_bytes.simps first_zero_bit.simps
      scan_run.simps bitmap_scan_test_def)

text \<open>
  On a bitmap whose bytes are all \<open>0xff\<close>, \<open>bitmap_scan\<close> does not report failure:
  its \<open>ASSERT(idx_byte < btmp->btmp_bytes_len)\<close> fails and the machine stops, whatever
  the number of bits requested.
\<close>

theorem bitmap_full_scan_panics:
  "bitmap_full b \<Longrightarrow> bitmap_scan b cnt = Inl (ASSERT_failed ''idx_byte < btmp->btmp_bytes_len'')"
  by (simp add: bitmap_scan_def bitmap_full_skip Let_def)

theorem bitmap_full_scan_panics_witness:
  "bitmap_full \<lparr>btmp_bytes_len = 1, bits = (\<lambda>_. 0)(0 := 0xff)\<rparr> \<and>
   bitmap_scan \<lparr>btmp_bytes_len = 1, bits = (\<lambda>_. 0)(0 := 0xff)\<rparr> 1
     = Inl (ASSERT_failed ''idx_byte < btmp->btmp_bytes_len'')"
proof -
  have full: "bitmap_full \<lparr>btmp_bytes_len = 1, bits = (\<lambda>_. 0 :: u8)(0 := 0xff)\<rparr>"
    by (simp add: bitmap_full_def)
  show ?thesis using bitmap_full_scan_panics [OF full] full by simp
qed

text \<open>
  C3. \<open>bitmap_set b i v\<close> fails (an \<open>ASSERT\<close>) unless \<open>v\<close> is 0 or 1; otherwise it
  keeps the length and changes bit \<open>i\<close> to \<open>v\<close> and no other bit.
\<close>

theorem bitmap_set_exact:
  "bitmap_set b i v = Inr b' \<Longrightarrow>
   (v = 0 \<or> v = 1) \<and> btmp_bytes_len b' = btmp_bytes_len b \<and>
   (\<forall>j. bitmap_scan_test b' j = (if j = i then v = 1 else bitmap_scan_test b j))"
  by (auto simp: bitmap_set_test bitmap_set_len) (auto simp: bitmap_set_Inr)

theorem bitmap_set_exact_witness:
  "bitmap_set \<lparr>btmp_bytes_len = 1, bits = (\<lambda>_. 0)\<rparr> 3 1
     = Inr \<lparr>btmp_bytes_len = 1, bits = (\<lambda>_. 0)(0 := 8)\<rparr> \<and>
   bitmap_scan_test \<lparr>btmp_bytes_len = 1, bits = (\<lambda>_. 0 :: u8)(0 := 8)\<rparr> 3"
proof -
  have set: "bitmap_set \<lparr>btmp_bytes_len = 1, bits = (\<lambda>_. 0 :: u8)\<rparr> 3 1
      = Inr \<lparr>btmp_bytes_len = 1, bits = (\<lambda>_. 0)(0 := 8)\<rparr>"
    by (simp add: bitmap_set_def)
  show ?thesis using bitmap_set_exact [OF set] set by simp
qed

text \<open>
  Setting a clear bit to 1 and then back to 0 gives back the bitmap unchanged, byte for
  byte: the round trip under every page allocation followed by its free.
\<close>

theorem bitmap_set_clear_roundtrip:
  "\<not> bitmap_scan_test b i \<Longrightarrow> bitmap_set b i 1 = Inr b1 \<Longrightarrow> bitmap_set b1 i 0 = Inr b2 \<Longrightarrow>
   b2 = b"
  by (rule bitmap_set_clear_restore)

theorem bitmap_set_clear_roundtrip_witness:
  "\<not> bitmap_scan_test \<lparr>btmp_bytes_len = 1, bits = (\<lambda>_. 5)\<rparr> 1 \<and>
   (case bitmap_set \<lparr>btmp_bytes_len = 1, bits = (\<lambda>_. 5)\<rparr> 1 1 of
      Inl e \<Rightarrow> False
    | Inr b1 \<Rightarrow> bitmap_set b1 1 0 = Inr \<lparr>btmp_bytes_len = 1, bits = (\<lambda>_. 5 :: u8)\<rparr>)"
proof -
  let ?b = "\<lparr>btmp_bytes_len = 1, bits = (\<lambda>_. 5 :: u8)\<rparr>"
  let ?b1 = "?b\<lparr>bits := (bits ?b)(0 := 7)\<rparr>"
  have t: "\<not> bitmap_scan_test ?b 1" by (simp add: bitmap_scan_test_def)
  have s1: "bitmap_set ?b 1 1 = Inr ?b1" by (simp add: bitmap_set_def)
  have s2: "bitmap_set ?b1 1 0 = Inr (?b1\<lparr>bits := (bits ?b1)(0 := 5)\<rparr>)"
    by (simp add: bitmap_set_def)
  have "?b1\<lparr>bits := (bits ?b1)(0 := 5)\<rparr> = ?b"
    using bitmap_set_clear_roundtrip [OF t s1 s2] .
  with t s1 s2 show ?thesis by simp
qed

end
