(* ===== verification/Pool.thy ===== *)
theory Pool
  imports Bitmap
begin

text \<open>
  The physical page pools and the virtual address pools of \<open>src/kernel/memory.c\<close>:
  \<open>struct pool\<close> and \<open>struct virtual_addr\<close> as records, the memory-management state
  (both pools, the kernel's virtual pool, the running task's page directory and virtual
  pool, the page-directory base register and the physical memory holding page tables) as a
  record, and the functions \<open>mem_pool_init\<close>, \<open>vaddr_get\<close>, \<open>palloc\<close>, \<open>pfree\<close> and
  \<open>vaddr_remove\<close>. The pool locks are not part of this state: each call is one atomic
  step, as the callers' \<open>lock_acquire\<close>/\<open>lock_release\<close> pairs make it.
\<close>

unbundle bit_operations_syntax

section \<open>Pools and the memory-management state\<close>

record virtual_addr =
  vaddr_bitmap :: bitmap
  vaddr_start :: u32

record pool =
  pool_bitmap :: bitmap
  phy_addr_start :: u32
  pool_size :: u32

datatype pool_flags = PF_KERNEL | PF_USER

text \<open>
  \<open>cur_pgdir\<close> and \<open>cur_uvaddr\<close> are the fields \<open>pgdir\<close> and \<open>userprog_vaddr\<close> of
  \<open>running_thread()\<close>; \<open>cr3\<close> is the physical address of the active page directory;
  \<open>pmem\<close> is physical memory as 32-bit words, where the page directories and page tables
  live.
\<close>

record mem_state =
  kernel_pool :: pool
  user_pool :: pool
  kernel_vaddr :: virtual_addr
  cur_pgdir :: "u32 option"
  cur_uvaddr :: virtual_addr
  cr3 :: u32
  pmem :: "u32 \<Rightarrow> u32"

abbreviation PG_SIZE :: nat where "PG_SIZE \<equiv> 4096"

text \<open>The loop \<open>while (cnt < pg_cnt) bitmap_set(bm, start + cnt++, value)\<close>.\<close>

function bitmap_set_loop :: "bitmap \<Rightarrow> nat \<Rightarrow> nat \<Rightarrow> nat \<Rightarrow> int \<Rightarrow> fatal + bitmap" where
  "bitmap_set_loop b start cnt pg_cnt v =
     (if cnt < pg_cnt then
        (case bitmap_set b (start + cnt) v of
           Inl e \<Rightarrow> Inl e
         | Inr b' \<Rightarrow> bitmap_set_loop b' start (Suc cnt) pg_cnt v)
      else Inr b)"
  by pat_completeness auto
termination
  by (relation "measure (\<lambda>(b, start, cnt, pg_cnt, v). pg_cnt - cnt)") auto

declare bitmap_set_loop.simps [simp del]

text \<open>
  One branch of \<open>vaddr_get\<close>: scan the virtual pool's bitmap for \<open>pg_cnt\<close> pages, mark
  them and return the address of the first (the two branches of the C function differ only
  in the pool they use and the user branch's final \<open>ASSERT\<close>).
\<close>

definition vaddr_scan_set :: "virtual_addr \<Rightarrow> nat \<Rightarrow> fatal + (u32 option \<times> virtual_addr)" where
  "vaddr_scan_set va pg_cnt =
     (case bitmap_scan (vaddr_bitmap va) pg_cnt of
        Inl e \<Rightarrow> Inl e
      | Inr bit_idx_start \<Rightarrow>
          if bit_idx_start = -1 then Inr (None, va)
          else (case bitmap_set_loop (vaddr_bitmap va) (nat bit_idx_start) 0 pg_cnt 1 of
                  Inl e \<Rightarrow> Inl e
                | Inr bm \<Rightarrow> Inr (Some (vaddr_start va + word_of_int (bit_idx_start * int PG_SIZE)),
                                 va\<lparr>vaddr_bitmap := bm\<rparr>)))"

definition vaddr_get :: "pool_flags \<Rightarrow> nat \<Rightarrow> mem_state \<Rightarrow> fatal + (u32 option \<times> mem_state)" where
  "vaddr_get pf pg_cnt s =
     (if pf = PF_KERNEL then
        (case vaddr_scan_set (kernel_vaddr s) pg_cnt of
           Inl e \<Rightarrow> Inl e
         | Inr (r, va) \<Rightarrow> Inr (r, s\<lparr>kernel_vaddr := va\<rparr>))
      else
        (case vaddr_scan_set (cur_uvaddr s) pg_cnt of
           Inl e \<Rightarrow> Inl e
         | Inr (None, va) \<Rightarrow> Inr (None, s\<lparr>cur_uvaddr := va\<rparr>)
         | Inr (Some v, va) \<Rightarrow>
             if \<not> v < 0xc0000000 - 0x1000
             then Inl (ASSERT_failed ''(uint32_t)vaddr_start < (0xc0000000 - PG_SIZE)'')
             else Inr (Some v, s\<lparr>cur_uvaddr := va\<rparr>)))"

definition palloc :: "pool \<Rightarrow> fatal + (u32 option \<times> pool)" where
  "palloc m_pool =
     (case bitmap_scan (pool_bitmap m_pool) 1 of
        Inl e \<Rightarrow> Inl e
      | Inr bit_idx \<Rightarrow>
          if bit_idx = -1 then Inr (None, m_pool)
          else (case bitmap_set (pool_bitmap m_pool) (nat bit_idx) 1 of
                  Inl e \<Rightarrow> Inl e
                | Inr bm \<Rightarrow> Inr (Some (phy_addr_start m_pool + word_of_int (bit_idx * int PG_SIZE)),
                                 m_pool\<lparr>pool_bitmap := bm\<rparr>)))"

definition pool_free_bit :: "pool \<Rightarrow> u32 \<Rightarrow> fatal + pool" where
  "pool_free_bit mem_pool pg_phy_addr =
     (let bit_idx = unat ((pg_phy_addr - phy_addr_start mem_pool) div of_nat PG_SIZE) in
      case bitmap_set (pool_bitmap mem_pool) bit_idx 0 of
        Inl e \<Rightarrow> Inl e
      | Inr bm \<Rightarrow> Inr (mem_pool\<lparr>pool_bitmap := bm\<rparr>))"

definition pfree :: "u32 \<Rightarrow> mem_state \<Rightarrow> fatal + mem_state" where
  "pfree pg_phy_addr s =
     (if phy_addr_start (user_pool s) \<le> pg_phy_addr then
        (case pool_free_bit (user_pool s) pg_phy_addr of
           Inl e \<Rightarrow> Inl e | Inr p \<Rightarrow> Inr (s\<lparr>user_pool := p\<rparr>))
      else
        (case pool_free_bit (kernel_pool s) pg_phy_addr of
           Inl e \<Rightarrow> Inl e | Inr p \<Rightarrow> Inr (s\<lparr>kernel_pool := p\<rparr>)))"

definition vaddr_clear :: "virtual_addr \<Rightarrow> u32 \<Rightarrow> nat \<Rightarrow> fatal + virtual_addr" where
  "vaddr_clear va vaddr pg_cnt =
     (let bit_idx_start = unat ((vaddr - vaddr_start va) div of_nat PG_SIZE) in
      case bitmap_set_loop (vaddr_bitmap va) bit_idx_start 0 pg_cnt 0 of
        Inl e \<Rightarrow> Inl e
      | Inr bm \<Rightarrow> Inr (va\<lparr>vaddr_bitmap := bm\<rparr>))"

definition vaddr_remove :: "pool_flags \<Rightarrow> u32 \<Rightarrow> nat \<Rightarrow> mem_state \<Rightarrow> fatal + mem_state" where
  "vaddr_remove pf vaddr pg_cnt s =
     (if pf = PF_KERNEL then
        (case vaddr_clear (kernel_vaddr s) vaddr pg_cnt of
           Inl e \<Rightarrow> Inl e | Inr va \<Rightarrow> Inr (s\<lparr>kernel_vaddr := va\<rparr>))
      else
        (case vaddr_clear (cur_uvaddr s) vaddr pg_cnt of
           Inl e \<Rightarrow> Inl e | Inr va \<Rightarrow> Inr (s\<lparr>cur_uvaddr := va\<rparr>)))"

text \<open>
  \<open>mem_pool_init(all_mem)\<close>: 256 page tables and the low 1 MiB are in use; the free pages
  are counted in a \<open>uint16_t\<close> and split in halves between the kernel and the user pool;
  each bitmap has one bit per page, rounded down to whole bytes. The bitmaps' memory is the
  memory the pointers address (taken from the state), zeroed by \<open>bitmap_init\<close>.
\<close>

definition mem_pool_init :: "u32 \<Rightarrow> mem_state \<Rightarrow> mem_state" where
  "mem_pool_init all_mem s =
     (let page_table_size = (0x1000 * 256 :: u32);
          used_mem = page_table_size + 0x100000;
          free_mem = all_mem - used_mem;
          all_free_pages = (ucast (free_mem div 0x1000) :: u16);
          kernel_free_pages = all_free_pages div 2;
          user_free_pages = all_free_pages - kernel_free_pages;
          kbm_length = unat kernel_free_pages div 8;
          ubm_length = unat user_free_pages div 8;
          kp_start = used_mem;
          up_start = kp_start + ucast kernel_free_pages * 0x1000
      in s\<lparr>kernel_pool := \<lparr>pool_bitmap = bitmap_init (\<lparr>btmp_bytes_len = kbm_length,
                                  bits = bits (pool_bitmap (kernel_pool s))\<rparr>),
                            phy_addr_start = kp_start,
                            pool_size = ucast kernel_free_pages * 0x1000\<rparr>,
           user_pool := \<lparr>pool_bitmap = bitmap_init (\<lparr>btmp_bytes_len = ubm_length,
                                  bits = bits (pool_bitmap (user_pool s))\<rparr>),
                          phy_addr_start = up_start,
                          pool_size = ucast user_free_pages * 0x1000\<rparr>,
           kernel_vaddr := \<lparr>vaddr_bitmap = bitmap_init (\<lparr>btmp_bytes_len = kbm_length,
                                  bits = bits (vaddr_bitmap (kernel_vaddr s))\<rparr>),
                            vaddr_start = 0xc0100000\<rparr>\<rparr>)"

text \<open>
  The pool a \<open>pool_flags\<close> value selects, as \<open>malloc_page\<close> and \<open>get_a_page\<close> do
  with \<open>pf & PF_KERNEL ? &kernel_pool : &user_pool\<close>, and the write back through that
  pointer.
\<close>

definition pool_of :: "pool_flags \<Rightarrow> mem_state \<Rightarrow> pool" where
  "pool_of pf s = (if pf = PF_KERNEL then kernel_pool s else user_pool s)"

definition set_pool :: "pool_flags \<Rightarrow> pool \<Rightarrow> mem_state \<Rightarrow> mem_state" where
  "set_pool pf p s = (if pf = PF_KERNEL then s\<lparr>kernel_pool := p\<rparr> else s\<lparr>user_pool := p\<rparr>)"

text \<open>
  Well-formedness of the pools: each pool's frames \<open>phy_addr_start + i * PG_SIZE\<close> for
  the \<open>8 * btmp_bytes_len\<close> bits of its bitmap fit in the 32-bit address space, and the
  kernel pool's frames lie below the user pool's start (\<open>pfree\<close> tells the pools apart by
  that start). A virtual pool's page offsets fit in 32 bits.
\<close>

definition pool_wf :: "pool \<Rightarrow> bool" where
  "pool_wf p \<longleftrightarrow> bitmap_wf (pool_bitmap p) \<and>
     unat (phy_addr_start p) + 8 * btmp_bytes_len (pool_bitmap p) * PG_SIZE \<le> 2 ^ 32"

definition pools_wf :: "mem_state \<Rightarrow> bool" where
  "pools_wf s \<longleftrightarrow> pool_wf (kernel_pool s) \<and> pool_wf (user_pool s) \<and>
     unat (phy_addr_start (kernel_pool s)) + 8 * btmp_bytes_len (pool_bitmap (kernel_pool s)) * PG_SIZE
       \<le> unat (phy_addr_start (user_pool s))"

definition vpool_wf :: "virtual_addr \<Rightarrow> bool" where
  "vpool_wf va \<longleftrightarrow> bitmap_wf (vaddr_bitmap va) \<and> 8 * btmp_bytes_len (vaddr_bitmap va) * PG_SIZE < 2 ^ 32"

text \<open>
  A small machine used by the examples below: one-byte bitmaps, the kernel pool at
  \<open>0x200000\<close> with frames 0--2 in use, the user pool at \<open>0x208000\<close> with frame 0 in
  use, the kernel heap at \<open>K_HEAP_START = 0xc0100000\<close> with its first page in use.
\<close>

definition ex_kpool :: pool where
  "ex_kpool = \<lparr>pool_bitmap = \<lparr>btmp_bytes_len = 1, bits = (\<lambda>_. 0)(0 := 0x07)\<rparr>,
               phy_addr_start = 0x200000, pool_size = 0x8000\<rparr>"

definition ex_upool :: pool where
  "ex_upool = \<lparr>pool_bitmap = \<lparr>btmp_bytes_len = 1, bits = (\<lambda>_. 0)(0 := 0x01)\<rparr>,
               phy_addr_start = 0x208000, pool_size = 0x8000\<rparr>"

definition ex_vpool :: virtual_addr where
  "ex_vpool = \<lparr>vaddr_bitmap = \<lparr>btmp_bytes_len = 1, bits = (\<lambda>_. 0)(0 := 0x01)\<rparr>,
               vaddr_start = 0xc0100000\<rparr>"

definition ex_uvpool :: virtual_addr where
  "ex_uvpool = \<lparr>vaddr_bitmap = \<lparr>btmp_bytes_len = 1, bits = (\<lambda>_. 0)\<rparr>, vaddr_start = 0x8048000\<rparr>"

definition ex_mem :: mem_state where
  "ex_mem = \<lparr>kernel_pool = ex_kpool, user_pool = ex_upool, kernel_vaddr = ex_vpool,
             cur_pgdir = None, cur_uvaddr = ex_uvpool, cr3 = 0x100000, pmem = (\<lambda>_. 0)\<rparr>"

subsection \<open>Lemmas\<close>

lemma bitmap_set_loop_Inr:
  assumes "v = 0 \<or> v = 1"
  shows "\<exists>b'. bitmap_set_loop b start cnt n v = Inr b' \<and> btmp_bytes_len b' = btmp_bytes_len b \<and>
     (\<forall>j. bitmap_scan_test b' j =
            (if start + cnt \<le> j \<and> j < start + n then v = 1 else bitmap_scan_test b j))"
  using assms
proof (induction b start cnt n v rule: bitmap_set_loop.induct)
  case (1 b start cnt n v)
  show ?case
  proof (cases "cnt < n")
    case True
    obtain b1 where b1: "bitmap_set b (start + cnt) v = Inr b1"
      using "1.prems" by (auto simp: bitmap_set_def Let_def)
    from "1.IH" [OF True b1 "1.prems"] obtain b' where
      loop: "bitmap_set_loop b1 start (Suc cnt) n v = Inr b'"
      and len: "btmp_bytes_len b' = btmp_bytes_len b1"
      and bits: "\<forall>j. bitmap_scan_test b' j =
                   (if start + Suc cnt \<le> j \<and> j < start + n then v = 1 else bitmap_scan_test b1 j)"
      by blast
    have "bitmap_set_loop b start cnt n v = Inr b'"
      using True b1 loop by (simp add: bitmap_set_loop.simps [of b start cnt])
    moreover have "btmp_bytes_len b' = btmp_bytes_len b"
      using len bitmap_set_len [OF b1] by simp
    moreover have "bitmap_scan_test b' j =
        (if start + cnt \<le> j \<and> j < start + n then v = 1 else bitmap_scan_test b j)" for j
      using bits bitmap_set_test [OF b1, of j] True by auto
    ultimately show ?thesis by blast
  next
    case False
    then show ?thesis by (auto simp: bitmap_set_loop.simps [of b start cnt])
  qed
qed

lemma palloc_found:
  assumes "bitmap_wf (pool_bitmap p)" and "\<not> bitmap_full (pool_bitmap p)"
  shows "\<exists>i bm. i < 8 * btmp_bytes_len (pool_bitmap p) \<and> \<not> bitmap_scan_test (pool_bitmap p) i \<and>
           (\<forall>j < i. bitmap_scan_test (pool_bitmap p) j) \<and>
           bitmap_set (pool_bitmap p) i 1 = Inr bm \<and>
           palloc p = Inr (Some (phy_addr_start p + word_of_nat (i * PG_SIZE)), p\<lparr>pool_bitmap := bm\<rparr>)"
proof -
  obtain st where st: "bitmap_scan (pool_bitmap p) 1 = Inr (int st)"
    "st < 8 * btmp_bytes_len (pool_bitmap p)" "\<not> bitmap_scan_test (pool_bitmap p) st"
    "\<forall>i < st. bitmap_scan_test (pool_bitmap p) i"
    using bitmap_scan_one [OF assms] by blast
  obtain bm where bm: "bitmap_set (pool_bitmap p) st 1 = Inr bm"
    by (simp add: bitmap_set_def Let_def)
  have "palloc p = Inr (Some (phy_addr_start p + word_of_nat (st * PG_SIZE)), p\<lparr>pool_bitmap := bm\<rparr>)"
    using st(1) bm by (simp add: palloc_def of_nat_mult)
  with st bm show ?thesis by blast
qed

lemma palloc_full:
  "bitmap_full (pool_bitmap p) \<Longrightarrow> palloc p = Inl (ASSERT_failed ''idx_byte < btmp->btmp_bytes_len'')"
  by (simp add: palloc_def bitmap_scan_full)

lemma palloc_Some:
  assumes wf: "pool_wf p" and ret: "palloc p = Inr (Some a, p')"
  shows "\<exists>i. i < 8 * btmp_bytes_len (pool_bitmap p) \<and> \<not> bitmap_scan_test (pool_bitmap p) i \<and>
           unat a = unat (phy_addr_start p) + i * PG_SIZE \<and>
           pool_free_bit p' a = Inr p \<and> p' = p\<lparr>pool_bitmap := pool_bitmap p'\<rparr> \<and>
           (\<forall>j. bitmap_scan_test (pool_bitmap p') j = (j = i \<or> bitmap_scan_test (pool_bitmap p) j))"
proof -
  have bwf: "bitmap_wf (pool_bitmap p)" and room: "unat (phy_addr_start p) + 8 * btmp_bytes_len (pool_bitmap p) * PG_SIZE \<le> 2 ^ 32"
    using wf by (auto simp: pool_wf_def)
  have nfull: "\<not> bitmap_full (pool_bitmap p)"
    using ret palloc_full [of p] by auto
  obtain i bm where i: "i < 8 * btmp_bytes_len (pool_bitmap p)" "\<not> bitmap_scan_test (pool_bitmap p) i"
    and bm: "bitmap_set (pool_bitmap p) i 1 = Inr bm"
    and pa: "palloc p = Inr (Some (phy_addr_start p + word_of_nat (i * PG_SIZE)), p\<lparr>pool_bitmap := bm\<rparr>)"
    using palloc_found [OF bwf nfull] by blast
  have a: "a = phy_addr_start p + word_of_nat (i * PG_SIZE)" and p': "p' = p\<lparr>pool_bitmap := bm\<rparr>"
    using ret pa by auto
  have lt: "unat (phy_addr_start p) + i * PG_SIZE < 2 ^ 32"
    using i(1) room by linarith
  have ua: "unat a = unat (phy_addr_start p) + i * PG_SIZE"
    using unat_add_of_nat_u32 [OF lt] a by simp
  have i32: "i * 4096 < 2 ^ 32" using lt by linarith
  obtain b0 where b0: "bitmap_set bm i 0 = Inr b0" by (simp add: bitmap_set_def Let_def)
  have "b0 = pool_bitmap p" by (rule bitmap_set_clear_restore [OF i(2) bm b0])
  then have "pool_free_bit p' a = Inr p"
    using b0 i32 by (simp add: pool_free_bit_def a p')
  moreover have "\<forall>j. bitmap_scan_test bm j = (j = i \<or> bitmap_scan_test (pool_bitmap p) j)"
    using bitmap_set_test [OF bm] by auto
  ultimately show ?thesis using i ua p' by auto
qed

lemma vaddr_scan_set_Some:
  assumes wf: "vpool_wf va" and c32: "cnt < 2 ^ 32"
    and ret: "vaddr_scan_set va cnt = Inr (Some v, va')"
  shows "vaddr_clear va' v cnt = Inr va"
proof -
  have bwf: "bitmap_wf (vaddr_bitmap va)" and room: "8 * btmp_bytes_len (vaddr_bitmap va) * PG_SIZE < 2 ^ 32"
    using wf by (auto simp: vpool_wf_def)
  let ?b = "vaddr_bitmap va"
  obtain r where scan: "bitmap_scan ?b cnt = Inr r" and r: "r \<noteq> -1"
    using ret by (auto simp: vaddr_scan_set_def split: sum.splits if_splits)
  let ?n = "if cnt = 1 then 8 * btmp_bytes_len ?b else Suc (8 * btmp_bytes_len ?b)"
  from scan r bitmap_scan_spec [OF bwf c32] obtain st where
    fit: "first_fit (bitmap_scan_test ?b) ?n cnt = Some st" and rst: "r = int st"
    by (auto split: if_splits option.splits)
  from first_fit_Some [OF fit] have run: "\<forall>i<cnt. \<not> bitmap_scan_test ?b (st + i)"
    and fits: "st + cnt \<le> ?n" by auto
  obtain bm where loop: "bitmap_set_loop ?b st 0 cnt 1 = Inr bm"
    and lbm: "btmp_bytes_len bm = btmp_bytes_len ?b"
    and tbm: "\<forall>j. bitmap_scan_test bm j = (if st \<le> j \<and> j < st + cnt then True else bitmap_scan_test ?b j)"
    using bitmap_set_loop_Inr [of 1 ?b st 0 cnt] by auto
  have v: "v = vaddr_start va + word_of_nat st * 4096" and va': "va' = va\<lparr>vaddr_bitmap := bm\<rparr>"
    using ret scan r loop by (auto simp: vaddr_scan_set_def rst)
  have st32: "st * 4096 < 2 ^ 32"
  proof (cases "cnt = 0")
    case True
    with scan bitmap_scan_spec [OF bwf c32] r show ?thesis by (auto split: if_splits)
  next
    case False
    with fits have "st < Suc (8 * btmp_bytes_len ?b)" by (auto split: if_splits)
    with room show ?thesis by simp
  qed
  obtain b0 where clear: "bitmap_set_loop bm st 0 cnt 0 = Inr b0"
    and lb0: "btmp_bytes_len b0 = btmp_bytes_len bm"
    and tb0: "\<forall>j. bitmap_scan_test b0 j = (if st \<le> j \<and> j < st + cnt then False else bitmap_scan_test bm j)"
    using bitmap_set_loop_Inr [of 0 bm st 0 cnt] by auto
  have "b0 = ?b"
  proof (rule bitmap_eqI)
    show "btmp_bytes_len b0 = btmp_bytes_len ?b" using lb0 lbm by simp
    show "\<forall>j. bitmap_scan_test b0 j = bitmap_scan_test ?b j"
    proof
      fix j
      show "bitmap_scan_test b0 j = bitmap_scan_test ?b j"
      proof (cases "st \<le> j \<and> j < st + cnt")
        case True
        then have "j - st < cnt" by linarith
        with run have "\<not> bitmap_scan_test ?b (st + (j - st))" by blast
        with True tb0 show ?thesis by simp
      next
        case False
        then show ?thesis using tb0 tbm by auto
      qed
    qed
  qed
  with clear st32 show ?thesis by (simp add: vaddr_clear_def v va')
qed

lemma mem_pool_init_fields:
  fixes all_mem :: u32 and s :: mem_state
  assumes mem: "0x200000 \<le> unat all_mem"
  defines "F \<equiv> (unat all_mem - 0x200000) div 4096 mod 65536"
  defines "s' \<equiv> mem_pool_init all_mem s"
  shows "unat (phy_addr_start (kernel_pool s')) = 0x200000"
    and "btmp_bytes_len (pool_bitmap (kernel_pool s')) = F div 2 div 8"
    and "unat (pool_size (kernel_pool s')) = F div 2 * 4096"
    and "unat (phy_addr_start (user_pool s')) = 0x200000 + F div 2 * 4096"
    and "btmp_bytes_len (pool_bitmap (user_pool s')) = (F - F div 2) div 8"
    and "unat (pool_size (user_pool s')) = (F - F div 2) * 4096"
    and "btmp_bytes_len (vaddr_bitmap (kernel_vaddr s')) = F div 2 div 8"
    and "vaddr_start (kernel_vaddr s') = 0xc0100000"
proof -
  define fpw :: u16 where "fpw = ucast ((all_mem - 0x200000) div 0x1000)"
  have le: "(0x200000 :: u32) \<le> all_mem" using mem by (simp add: word_le_nat_alt)
  have fm: "unat (all_mem - 0x200000) = unat all_mem - 0x200000"
    using le by (simp add: unat_sub)
  have small: "(unat all_mem - 0x200000) div 4096 < 4294967296"
    by (rule le_less_trans [OF _ unat_u32_less [of all_mem]]) (meson div_le_dividend diff_le_self order_trans)
  have fp: "unat fpw = F"
    using small by (simp add: fpw_def unat_div fm F_def)
  have F: "F < 65536" by (simp add: F_def)
  have k: "unat (fpw div 2) = F div 2" by (simp only: unat_div fp) simp
  have u: "unat (fpw - fpw div 2) = F - F div 2" by (simp add: fp)
  have ku: "F div 2 * 4096 < 4294967296" and uu: "(F - F div 2) * 4096 < 4294967296"
    using F by linarith+
  have eq: "s' = s\<lparr>kernel_pool := \<lparr>pool_bitmap = bitmap_init (\<lparr>btmp_bytes_len = unat (fpw div 2) div 8,
                                  bits = bits (pool_bitmap (kernel_pool s))\<rparr>),
                            phy_addr_start = 0x200000,
                            pool_size = ucast (fpw div 2) * 0x1000\<rparr>,
           user_pool := \<lparr>pool_bitmap = bitmap_init (\<lparr>btmp_bytes_len = unat (fpw - fpw div 2) div 8,
                                  bits = bits (pool_bitmap (user_pool s))\<rparr>),
                          phy_addr_start = 0x200000 + ucast (fpw div 2) * 0x1000,
                          pool_size = ucast (fpw - fpw div 2) * 0x1000\<rparr>,
           kernel_vaddr := \<lparr>vaddr_bitmap = bitmap_init (\<lparr>btmp_bytes_len = unat (fpw div 2) div 8,
                                  bits = bits (vaddr_bitmap (kernel_vaddr s))\<rparr>),
                            vaddr_start = 0xc0100000\<rparr>\<rparr>"
    by (simp add: s'_def mem_pool_init_def Let_def fpw_def)
  have ks: "unat (ucast (fpw div 2) * (0x1000 :: u32)) = F div 2 * 4096"
    using ku fp F by (simp only: unat_word_ariths unat_ucast_u16_u32 k) simp
  have us: "unat (ucast (fpw - fpw div 2) * (0x1000 :: u32)) = (F - F div 2) * 4096"
    using uu by (simp only: unat_word_ariths unat_ucast_u16_u32 u) simp
  show "unat (phy_addr_start (kernel_pool s')) = 0x200000" by (simp add: eq)
  show "btmp_bytes_len (pool_bitmap (kernel_pool s')) = F div 2 div 8"
    by (simp add: eq bitmap_init_def k)
  show "unat (pool_size (kernel_pool s')) = F div 2 * 4096" by (simp add: eq ks)
  show "unat (phy_addr_start (user_pool s')) = 0x200000 + F div 2 * 4096"
    using ks ku by (simp add: eq unat_word_ariths)
  show "btmp_bytes_len (pool_bitmap (user_pool s')) = (F - F div 2) div 8"
    by (simp add: eq bitmap_init_def fp)
  show "unat (pool_size (user_pool s')) = (F - F div 2) * 4096" by (simp add: eq us)
  show "btmp_bytes_len (vaddr_bitmap (kernel_vaddr s')) = F div 2 div 8"
    by (simp add: eq bitmap_init_def k)
  show "vaddr_start (kernel_vaddr s') = 0xc0100000" by (simp add: eq)
qed

lemma bitmap_scan_one_nonneg: "bitmap_scan b 1 = Inr r \<Longrightarrow> 0 \<le> r"
  by (auto simp: bitmap_scan_def Let_def split: if_splits)

lemma mult_page_less: "i < n \<Longrightarrow> i * PG_SIZE < n * PG_SIZE"
  by simp

subsection \<open>Properties of the pools\<close>

text \<open>
  C7: a frame taken from either physical pool by \<open>palloc\<close> and given back by
  \<open>pfree\<close> restores the memory state exactly: \<open>pfree\<close> recognises the pool the frame
  came from by the user pool's start address and clears the bit \<open>palloc\<close> set.
\<close>

theorem palloc_pfree_roundtrip:
  assumes wf: "pools_wf s" and ret: "palloc (pool_of pf s) = Inr (Some a, p')"
  shows "pfree a (set_pool pf p' s) = Inr s"
proof (cases pf)
  case PF_KERNEL
  have pw: "pool_wf (kernel_pool s)"
    and sep: "unat (phy_addr_start (kernel_pool s)) + 8 * btmp_bytes_len (pool_bitmap (kernel_pool s)) * PG_SIZE
                \<le> unat (phy_addr_start (user_pool s))"
    using wf by (auto simp: pools_wf_def)
  obtain i where i: "i < 8 * btmp_bytes_len (pool_bitmap (kernel_pool s))"
    "unat a = unat (phy_addr_start (kernel_pool s)) + i * PG_SIZE" "pool_free_bit p' a = Inr (kernel_pool s)"
    using palloc_Some [OF pw] ret PF_KERNEL by (auto simp: pool_of_def)
  have "unat a < unat (phy_addr_start (user_pool s))"
    using i(2) mult_page_less [OF i(1)] sep by linarith
  then have "\<not> phy_addr_start (user_pool s) \<le> a" by (simp add: word_le_nat_alt)
  then show ?thesis using i(3) PF_KERNEL by (simp add: pfree_def set_pool_def)
next
  case PF_USER
  have pw: "pool_wf (user_pool s)" using wf by (auto simp: pools_wf_def)
  obtain i where i: "unat a = unat (phy_addr_start (user_pool s)) + i * PG_SIZE"
    "pool_free_bit p' a = Inr (user_pool s)" "p' = user_pool s\<lparr>pool_bitmap := pool_bitmap p'\<rparr>"
    using palloc_Some [OF pw] ret PF_USER by (auto simp: pool_of_def)
  have "phy_addr_start p' \<le> a" by (subst i(3)) (simp add: word_le_nat_alt i(1))
  then show ?thesis using i(2) PF_USER by (simp add: pfree_def set_pool_def)
qed

theorem palloc_pfree_roundtrip_witness:
  "pools_wf ex_mem \<and>
   palloc (pool_of PF_USER ex_mem) =
     Inr (Some 0x209000, ex_upool\<lparr>pool_bitmap := \<lparr>btmp_bytes_len = 1, bits = (\<lambda>_. 0)(0 := 3)\<rparr>\<rparr>) \<and>
   pfree 0x209000 (set_pool PF_USER (ex_upool\<lparr>pool_bitmap := \<lparr>btmp_bytes_len = 1, bits = (\<lambda>_. 0)(0 := 3)\<rparr>\<rparr>) ex_mem)
     = Inr ex_mem"
proof -
  have wf: "pools_wf ex_mem"
    by (simp add: pools_wf_def pool_wf_def bitmap_wf_def ex_mem_def ex_kpool_def ex_upool_def)
  have pa: "palloc (pool_of PF_USER ex_mem) =
     Inr (Some 0x209000, ex_upool\<lparr>pool_bitmap := \<lparr>btmp_bytes_len = 1, bits = (\<lambda>_. 0)(0 := 3)\<rparr>\<rparr>)"
    by (simp add: palloc_def pool_of_def ex_mem_def ex_upool_def bitmap_scan_def bitmap_set_def
        skip_full_bytes.simps first_zero_bit.simps)
  show ?thesis using wf pa palloc_pfree_roundtrip [OF wf pa] by simp
qed

text \<open>
  C8: on a well-formed pool that is not full, \<open>palloc\<close> returns the frame of the
  lowest clear bit, at \<open>phy_addr_start + i * PG_SIZE\<close> without wrap-around, and sets
  that bit and no other.
\<close>

theorem palloc_first_free:
  assumes wf: "pool_wf p" and nf: "\<not> bitmap_full (pool_bitmap p)"
  shows "\<exists>i p'. palloc p = Inr (Some (phy_addr_start p + word_of_nat (i * PG_SIZE)), p') \<and>
           unat (phy_addr_start p + word_of_nat (i * PG_SIZE)) = unat (phy_addr_start p) + i * PG_SIZE \<and>
           i < 8 * btmp_bytes_len (pool_bitmap p) \<and> \<not> bitmap_scan_test (pool_bitmap p) i \<and>
           (\<forall>j < i. bitmap_scan_test (pool_bitmap p) j) \<and>
           p' = p\<lparr>pool_bitmap := pool_bitmap p'\<rparr> \<and>
           (\<forall>j. bitmap_scan_test (pool_bitmap p') j = (j = i \<or> bitmap_scan_test (pool_bitmap p) j))"
proof -
  have bwf: "bitmap_wf (pool_bitmap p)"
    and room: "unat (phy_addr_start p) + 8 * btmp_bytes_len (pool_bitmap p) * PG_SIZE \<le> 2 ^ 32"
    using wf by (auto simp: pool_wf_def)
  obtain i bm where i: "i < 8 * btmp_bytes_len (pool_bitmap p)" "\<not> bitmap_scan_test (pool_bitmap p) i"
    "\<forall>j < i. bitmap_scan_test (pool_bitmap p) j" and bm: "bitmap_set (pool_bitmap p) i 1 = Inr bm"
    and pa: "palloc p = Inr (Some (phy_addr_start p + word_of_nat (i * PG_SIZE)), p\<lparr>pool_bitmap := bm\<rparr>)"
    using palloc_found [OF bwf nf] by blast
  have "unat (phy_addr_start p) + i * PG_SIZE < 2 ^ 32"
    using mult_page_less [OF i(1)] room by linarith
  then have "unat (phy_addr_start p + word_of_nat (i * PG_SIZE)) = unat (phy_addr_start p) + i * PG_SIZE"
    by (rule unat_add_of_nat_u32)
  moreover have "\<forall>j. bitmap_scan_test bm j = (j = i \<or> bitmap_scan_test (pool_bitmap p) j)"
    using bitmap_set_test [OF bm] by auto
  ultimately show ?thesis using i pa
    by (intro exI [of _ i] exI [of _ "p\<lparr>pool_bitmap := bm\<rparr>"] conjI) simp_all
qed

theorem palloc_first_free_witness:
  "pool_wf ex_kpool \<and> \<not> bitmap_full (pool_bitmap ex_kpool) \<and>
   (\<exists>i p'. palloc ex_kpool = Inr (Some (0x200000 + word_of_nat (i * PG_SIZE)), p') \<and> i < 8)"
proof -
  have wf: "pool_wf ex_kpool" by (simp add: pool_wf_def bitmap_wf_def ex_kpool_def)
  have nf: "\<not> bitmap_full (pool_bitmap ex_kpool)" by (simp add: bitmap_full_def ex_kpool_def)
  from palloc_first_free [OF wf nf] wf nf show ?thesis by (auto simp: ex_kpool_def)
qed

text \<open>
  C9: \<open>palloc\<close> never returns \<open>NULL\<close>: \<open>bitmap_scan\<close> with a count of one
  never answers -1, so the \<open>NULL\<close> checks of \<open>malloc_page\<close> and \<open>get_a_page\<close> are
  dead code, and an exhausted pool stops the machine instead (C4).
\<close>

theorem palloc_never_null: "palloc p \<noteq> Inr (None, p')"
proof (cases "bitmap_scan (pool_bitmap p) 1")
  case (Inl e)
  then show ?thesis by (simp add: palloc_def)
next
  case (Inr r)
  then have "0 \<le> r" by (rule bitmap_scan_one_nonneg)
  then show ?thesis using Inr by (simp add: palloc_def split: sum.splits)
qed

text \<open>
  C10: virtual pages obtained with \<open>vaddr_get\<close> and released with
  \<open>vaddr_remove\<close> (same flags, address and count) restore the state exactly, in the
  kernel branch and in the running task's user branch.
\<close>

theorem vaddr_get_remove_roundtrip:
  assumes wk: "vpool_wf (kernel_vaddr s)" and wu: "vpool_wf (cur_uvaddr s)" and c32: "cnt < 2 ^ 32"
    and ret: "vaddr_get pf cnt s = Inr (Some v, s')"
  shows "vaddr_remove pf v cnt s' = Inr s"
proof (cases pf)
  case PF_KERNEL
  obtain va where sc: "vaddr_scan_set (kernel_vaddr s) cnt = Inr (Some v, va)" and s': "s' = s\<lparr>kernel_vaddr := va\<rparr>"
    using ret PF_KERNEL by (auto simp: vaddr_get_def split: sum.splits)
  have "vaddr_clear va v cnt = Inr (kernel_vaddr s)" by (rule vaddr_scan_set_Some [OF wk c32 sc])
  then show ?thesis using PF_KERNEL by (simp add: vaddr_remove_def s')
next
  case PF_USER
  obtain va where sc: "vaddr_scan_set (cur_uvaddr s) cnt = Inr (Some v, va)" and s': "s' = s\<lparr>cur_uvaddr := va\<rparr>"
    using ret PF_USER by (auto simp: vaddr_get_def split: sum.splits option.splits if_splits)
  have "vaddr_clear va v cnt = Inr (cur_uvaddr s)" by (rule vaddr_scan_set_Some [OF wu c32 sc])
  then show ?thesis using PF_USER by (simp add: vaddr_remove_def s')
qed


theorem vaddr_get_remove_roundtrip_witness:
  "vpool_wf (kernel_vaddr ex_mem) \<and> vpool_wf (cur_uvaddr ex_mem) \<and>
   vaddr_get PF_KERNEL 2 ex_mem =
     Inr (Some 0xc0101000, ex_mem\<lparr>kernel_vaddr := ex_vpool\<lparr>vaddr_bitmap :=
                                    \<lparr>btmp_bytes_len = 1, bits = (\<lambda>_. 0)(0 := 7)\<rparr>\<rparr>\<rparr>) \<and>
   vaddr_remove PF_KERNEL 0xc0101000 2
     (ex_mem\<lparr>kernel_vaddr := ex_vpool\<lparr>vaddr_bitmap := \<lparr>btmp_bytes_len = 1, bits = (\<lambda>_. 0)(0 := 7)\<rparr>\<rparr>\<rparr>)
     = Inr ex_mem"
proof -
  have wk: "vpool_wf (kernel_vaddr ex_mem)" and wu: "vpool_wf (cur_uvaddr ex_mem)"
    by (simp_all add: vpool_wf_def bitmap_wf_def ex_mem_def ex_vpool_def ex_uvpool_def)
  have g: "vaddr_get PF_KERNEL 2 ex_mem =
     Inr (Some 0xc0101000, ex_mem\<lparr>kernel_vaddr := ex_vpool\<lparr>vaddr_bitmap :=
                                    \<lparr>btmp_bytes_len = 1, bits = (\<lambda>_. 0)(0 := 7)\<rparr>\<rparr>\<rparr>)"
    by (simp add: vaddr_get_def vaddr_scan_set_def ex_mem_def ex_vpool_def bitmap_scan_def
        skip_full_bytes.simps first_zero_bit.simps scan_run.simps bitmap_scan_test_def
        bitmap_set_loop.simps bitmap_set_def)
  show ?thesis using wk wu g vaddr_get_remove_roundtrip [OF wk wu _ g] by simp
qed

text \<open>
  C11: with at least the 2 MiB the kernel reserves, \<open>mem_pool_init\<close> builds
  well-formed physical pools, the kernel pool's frames below the user pool's, all frames in
  installed memory, and a kernel virtual pool whose pages fit in 32 bits.
\<close>

theorem mem_pool_init_wf:
  assumes mem: "0x200000 \<le> unat all_mem"
  shows "pools_wf (mem_pool_init all_mem s) \<and> vpool_wf (kernel_vaddr (mem_pool_init all_mem s)) \<and>
         unat (phy_addr_start (user_pool (mem_pool_init all_mem s))) +
           8 * btmp_bytes_len (pool_bitmap (user_pool (mem_pool_init all_mem s))) * PG_SIZE \<le> unat all_mem"
proof -
  define F where "F = (unat all_mem - 0x200000) div 4096 mod 65536"
  define K where "K = F div 2"
  define KL where "KL = K div 8"
  define U where "U = F - K"
  define UL where "UL = U div 8"
  note f = mem_pool_init_fields [OF mem, of s, folded F_def, folded K_def, folded KL_def U_def, folded UL_def]
  have F: "F < 65536" by (simp add: F_def)
  have "F \<le> (unat all_mem - 0x200000) div 4096" by (simp add: F_def)
  then have Fm: "0x200000 + F * 4096 \<le> unat all_mem"
    using mem div_times_less_eq_dividend [of "unat all_mem - 0x200000" 4096] by linarith
  have KU: "K + U = F" by (simp add: K_def U_def)
  have k8: "8 * KL \<le> K" and u8: "8 * UL \<le> U"
    by (simp_all add: KL_def UL_def times_div_less_eq_dividend)
  have all: "unat all_mem < 4294967296" by simp
  have p: "(2::nat) ^ 31 = 2147483648" "(2::nat) ^ 32 = 4294967296" by simp_all
  show ?thesis
    unfolding pools_wf_def pool_wf_def bitmap_wf_def vpool_wf_def f p
    using F Fm KU k8 u8 all by (intro conjI) linarith+
qed

theorem mem_pool_init_wf_witness:
  "0x200000 \<le> unat (0x2000000 :: u32) \<and> pools_wf (mem_pool_init 0x2000000 ex_mem) \<and>
   vpool_wf (kernel_vaddr (mem_pool_init 0x2000000 ex_mem))"
  using mem_pool_init_wf [of "0x2000000" ex_mem] by simp

text \<open>
  When the free memory has fewer than 65536 pages (less than 258 MiB in all),
  the two pools together hold every whole free page: the odd page goes to the user pool.
\<close>

theorem mem_pool_init_accounts:
  assumes mem: "0x200000 \<le> unat all_mem" and small: "unat all_mem < 0x200000 + 65536 * 4096"
  shows "unat (pool_size (kernel_pool (mem_pool_init all_mem s))) +
         unat (pool_size (user_pool (mem_pool_init all_mem s))) = (unat all_mem - 0x200000) div 4096 * 4096"
proof -
  define N where "N = (unat all_mem - 0x200000) div 4096"
  have "N < 65536" using small mem by (simp add: N_def less_mult_imp_div_less)
  then have F: "(unat all_mem - 0x200000) div 4096 mod 65536 = N" by (simp add: N_def)
  note f = mem_pool_init_fields [OF mem, of s, unfolded F]
  show ?thesis unfolding f(3) f(6) N_def [symmetric] by simp
qed

theorem mem_pool_init_accounts_witness:
  "0x200000 \<le> unat (0x2000000 :: u32) \<and> unat (0x2000000 :: u32) < 0x200000 + 65536 * 4096 \<and>
   unat (pool_size (kernel_pool (mem_pool_init 0x2000000 ex_mem))) +
   unat (pool_size (user_pool (mem_pool_init 0x2000000 ex_mem))) = 7680 * 4096"
  using mem_pool_init_accounts [of "0x2000000" ex_mem] by simp

text \<open>
  C13: \<open>all_free_pages\<close> is a \<open>uint16_t\<close>. For every \<open>all_mem\<close> of at least 2 MiB the
  two physical pools together manage the number of free pages modulo 65536, so from
  258 MiB on they manage fewer pages than are free (65024 of 130560 with 512 MiB).
\<close>

theorem mem_pool_init_truncates:
  assumes mem: "0x200000 \<le> unat all_mem"
  shows "unat (pool_size (kernel_pool (mem_pool_init all_mem s))) +
         unat (pool_size (user_pool (mem_pool_init all_mem s))) =
           (unat all_mem - 0x200000) div 4096 mod 65536 * 4096 \<and>
         (0x200000 + 65536 * 4096 \<le> unat all_mem \<longrightarrow>
           unat (pool_size (kernel_pool (mem_pool_init all_mem s))) +
           unat (pool_size (user_pool (mem_pool_init all_mem s))) < (unat all_mem - 0x200000) div 4096 * 4096)"
proof -
  define N where "N = (unat all_mem - 0x200000) div 4096"
  note f = mem_pool_init_fields [OF mem, of s]
  have sum: "unat (pool_size (kernel_pool (mem_pool_init all_mem s))) +
             unat (pool_size (user_pool (mem_pool_init all_mem s))) = N mod 65536 * 4096"
    unfolding f(3) f(6) N_def [symmetric] by simp
  have "65536 \<le> N \<Longrightarrow> N mod 65536 < N"
    by (metis less_le_trans mod_less_divisor zero_less_numeral)
  moreover have "0x200000 + 65536 * 4096 \<le> unat all_mem \<Longrightarrow> 65536 \<le> N"
    by (simp add: N_def le_diff_conv2 less_eq_div_iff_mult_less_eq)
  ultimately show ?thesis using sum by (auto simp: N_def)
qed

theorem mem_pool_init_truncates_witness:
  "0x200000 \<le> unat (0x20000000 :: u32) \<and>
   unat (pool_size (kernel_pool (mem_pool_init 0x20000000 ex_mem))) +
   unat (pool_size (user_pool (mem_pool_init 0x20000000 ex_mem))) = 65024 * 4096 \<and>
   (unat (0x20000000 :: u32) - 0x200000) div 4096 = 130560"
  using mem_pool_init_truncates [of "0x20000000" ex_mem] by simp

end
