(* ===== verification/Paging.thy ===== *)
theory Paging
  imports Pool
begin

text \<open>
  The two-level page tables of \<open>src/kernel/memory.c\<close>: the index macros
  \<open>PDE_IDX\<close> and \<open>PTE_IDX\<close>, \<open>pde_ptr\<close> and \<open>pte_ptr\<close> (which reach the tables
  through the directory's last entry, mapped to the directory itself), \<open>page_table_add\<close>,
  \<open>addr_v2p\<close> and \<open>page_table_pte_remove\<close>. Memory accesses through a pointer go
  through a model of the x86 MMU (\<open>mmu_translate\<close>: two-level, 4 KiB pages, present bit
  only, no TLB, so \<open>invlpg\<close> has no counterpart); an access to an unmapped address is a
  page fault, which stops the kernel.
\<close>

unbundle bit_operations_syntax

section \<open>Page tables\<close>

definition PDE_IDX :: "u32 \<Rightarrow> u32" where "PDE_IDX addr = drop_bit 22 (addr AND 0xffc00000)"
definition PTE_IDX :: "u32 \<Rightarrow> u32" where "PTE_IDX addr = drop_bit 12 (addr AND 0x003ff000)"
definition pte_ptr :: "u32 \<Rightarrow> u32" where
  "pte_ptr vaddr = 0xffc00000 + drop_bit 10 (vaddr AND 0xffc00000) + PTE_IDX vaddr * 4"
definition pde_ptr :: "u32 \<Rightarrow> u32" where
  "pde_ptr vaddr = 0xfffff000 + PDE_IDX vaddr * 4"

text \<open>
  The MMU: the directory entry of \<open>v\<close> is the word at \<open>cr3 + PDE_IDX v * 4\<close>; if present
  (bit 0), the table entry is the word at its frame plus \<open>PTE_IDX v * 4\<close>; if that is
  present, \<open>v\<close> is its frame plus the page offset. \<open>pmem\<close> holds aligned 32-bit words.
\<close>

definition mmu_translate :: "mem_state \<Rightarrow> u32 \<Rightarrow> u32 option" where
  "mmu_translate s v =
     (let pde = pmem s (cr3 s + PDE_IDX v * 4) in
      if pde AND 1 = 0 then None
      else let pte = pmem s ((pde AND 0xfffff000) + PTE_IDX v * 4) in
        if pte AND 1 = 0 then None else Some ((pte AND 0xfffff000) + (v AND 0xfff)))"

definition vread :: "mem_state \<Rightarrow> u32 \<Rightarrow> fatal + u32" where
  "vread s v = (case mmu_translate s v of None \<Rightarrow> Inl (Page_fault v) | Some a \<Rightarrow> Inr (pmem s a))"

definition vwrite :: "mem_state \<Rightarrow> u32 \<Rightarrow> u32 \<Rightarrow> fatal + mem_state" where
  "vwrite s v x = (case mmu_translate s v of None \<Rightarrow> Inl (Page_fault v)
                    | Some a \<Rightarrow> Inr (s\<lparr>pmem := (pmem s)(a := x)\<rparr>))"

text \<open>
  The directory is self-mapped: \<open>cr3\<close> is page-aligned and the last directory entry is
  present and points to the directory (set up by the loader, outside \<open>src/\<close>).
\<close>

definition selfmap :: "mem_state \<Rightarrow> bool" where
  "selfmap s \<longleftrightarrow> cr3 s AND 0xfff = 0 \<and> pmem s (cr3 s + 0xffc) AND 0xfffff000 = cr3 s \<and>
                 pmem s (cr3 s + 0xffc) AND 1 \<noteq> 0"

definition pde_of :: "mem_state \<Rightarrow> u32 \<Rightarrow> u32" where
  "pde_of s v = pmem s (cr3 s + PDE_IDX v * 4)"

definition pte_addr :: "mem_state \<Rightarrow> u32 \<Rightarrow> u32" where
  "pte_addr s v = (pde_of s v AND 0xfffff000) + PTE_IDX v * 4"

text \<open>
  \<open>memset(v, 0, PG_SIZE)\<close> on a page-aligned \<open>v\<close>: the 4096 bytes lie in one page, so
  they are the frame \<open>v\<close> translates to.
\<close>

definition vmemset_page :: "mem_state \<Rightarrow> u32 \<Rightarrow> fatal + mem_state" where
  "vmemset_page s v =
     (case mmu_translate s v of None \<Rightarrow> Inl (Page_fault v)
      | Some a \<Rightarrow> Inr (s\<lparr>pmem := \<lambda>x. if x AND 0xfffff000 = a AND 0xfffff000 then 0 else pmem s x\<rparr>))"

text \<open>
  \<open>page_table_add\<close>: the \<open>else PANIC("pte repeat")\<close> branch after the \<open>ASSERT\<close> is
  unreachable and has no counterpart. \<open>palloc\<close>'s \<open>NULL\<close>, never returned (C9), would be
  written as frame 0.
\<close>

definition page_table_add :: "u32 \<Rightarrow> u32 \<Rightarrow> mem_state \<Rightarrow> fatal + mem_state" where
  "page_table_add vaddr page_phyaddr s =
     (let pde = pde_ptr vaddr; pte = pte_ptr vaddr in
      case vread s pde of
        Inl e \<Rightarrow> Inl e
      | Inr pdev \<Rightarrow>
          if pdev AND 1 \<noteq> 0 then
            (case vread s pte of
               Inl e \<Rightarrow> Inl e
             | Inr ptev \<Rightarrow>
                 if ptev AND 1 \<noteq> 0 then Inl (ASSERT_failed ''!(*pte & 0x00000001)'')
                 else vwrite s pte (page_phyaddr OR 4 OR 2 OR 1))
          else
            (case palloc (kernel_pool s) of
               Inl e \<Rightarrow> Inl e
             | Inr (r, kp) \<Rightarrow>
                 let pde_phyaddr = (case r of None \<Rightarrow> 0 | Some a \<Rightarrow> a) in
                 case vwrite (s\<lparr>kernel_pool := kp\<rparr>) pde (pde_phyaddr OR 4 OR 2 OR 1) of
                   Inl e \<Rightarrow> Inl e
                 | Inr s2 \<Rightarrow>
                     (case vmemset_page s2 (pte AND 0xfffff000) of
                        Inl e \<Rightarrow> Inl e
                      | Inr s3 \<Rightarrow>
                          (case vread s3 pte of
                             Inl e \<Rightarrow> Inl e
                           | Inr ptev \<Rightarrow>
                               if ptev AND 1 \<noteq> 0 then Inl (ASSERT_failed ''!(*pte & 0x00000001)'')
                               else vwrite s3 pte (page_phyaddr OR 4 OR 2 OR 1)))))"

definition addr_v2p :: "u32 \<Rightarrow> mem_state \<Rightarrow> fatal + u32" where
  "addr_v2p vaddr s =
     (case vread s (pte_ptr vaddr) of
        Inl e \<Rightarrow> Inl e
      | Inr pte \<Rightarrow> Inr ((pte AND 0xfffff000) + (vaddr AND 0xfff)))"

definition page_table_pte_remove :: "u32 \<Rightarrow> mem_state \<Rightarrow> fatal + mem_state" where
  "page_table_pte_remove vaddr s =
     (case vread s (pte_ptr vaddr) of
        Inl e \<Rightarrow> Inl e
      | Inr pte \<Rightarrow> vwrite s (pte_ptr vaddr) (pte AND NOT 1))"

text \<open>
  The page directory in use is never handed out by the kernel pool: the pool's frames are
  page-aligned and the frame of \<open>cr3\<close>, if it is one of them, is marked in use.
\<close>

definition dir_reserved :: "mem_state \<Rightarrow> bool" where
  "dir_reserved s \<longleftrightarrow> phy_addr_start (kernel_pool s) AND 0xfff = 0 \<and>
     list_all (\<lambda>i. if phy_addr_start (kernel_pool s) + word_of_nat (i * PG_SIZE) = cr3 s
                    then bitmap_scan_test (pool_bitmap (kernel_pool s)) i else True)
              [0..<8 * btmp_bytes_len (pool_bitmap (kernel_pool s))]"

text \<open>
  A machine with paging on: the page directory at \<open>0x100000\<close> maps itself through its
  last entry, its entry 0 points to the page table at \<open>0x101000\<close>, which maps the
  virtual page \<open>0x5000\<close> to the frame \<open>0x300000\<close>; the pools are those of
  \<open>ex_mem\<close>.
\<close>

definition ex_pg :: mem_state where
  "ex_pg = ex_mem\<lparr>cr3 := 0x100000,
                   pmem := (\<lambda>_. 0)(0x100ffc := 0x100007, 0x100000 := 0x101007, 0x101014 := 0x300007)\<rparr>"

subsection \<open>Lemmas\<close>

lemma masks: "(0xffc00000::u32) = NOT (mask 22)" "(0x003ff000::u32) = push_bit 12 (mask 10)"
  "(0xfffff000::u32) = NOT (mask 12)" "(0xfff::u32) = mask 12" "(4::u32) = push_bit 2 1"
  by (simp_all add: mask_eq_exp_minus_1)

lemma bit_u32_lt: "bit (v :: u32) k \<Longrightarrow> k < 32"
  using bit_imp_le_length [of v k] by simp

lemma add_disj: "(\<And>n. bit a n \<Longrightarrow> bit b n \<Longrightarrow> False) \<Longrightarrow> a + b = a OR (b :: 'a::len word)"
  by (rule disjunctive_add) blast

lemma PDE_IDX_bits: "PDE_IDX v = drop_bit 22 v"
  unfolding PDE_IDX_def masks by (rule bit_eqI) (auto simp: bit_simps dest: bit_u32_lt)

lemma PTE_IDX_bits: "PTE_IDX v = take_bit 10 (drop_bit 12 v)"
  unfolding PTE_IDX_def masks by (rule bit_eqI) (auto simp: bit_simps dest: bit_u32_lt)

lemma push_drop_22_lt: "bit (push_bit 2 (drop_bit 22 (v :: u32))) n \<Longrightarrow> n < 12"
proof -
  assume "bit (push_bit 2 (drop_bit 22 v)) n"
  then have "bit v (20 + n)" by (auto simp: bit_push_bit_iff bit_drop_bit_eq)
  then show "n < 12" using bit_u32_lt [of v "20 + n"] by simp
qed

lemma pde_ptr_bits: "pde_ptr v = NOT (mask 12) OR push_bit 2 (drop_bit 22 v)"
proof -
  have m: "PDE_IDX v * 4 = push_bit 2 (drop_bit 22 v)" by (simp add: PDE_IDX_bits push_bit_eq_mult)
  show ?thesis unfolding pde_ptr_def m masks(3)
    by (rule add_disj) (auto simp: bit_not_iff bit_mask_iff dest: push_drop_22_lt)
qed

lemma masks2: "(1023::u32) = mask 10" "(0xfff::u32) = mask 12"
  by (simp_all add: mask_eq_exp_minus_1)

lemma push_take_lt: "bit (push_bit 2 (take_bit 10 (w :: u32))) n \<Longrightarrow> n < 12"
  by (auto simp: bit_push_bit_iff bit_take_bit_iff)

lemma push12_lt: "bit (push_bit 12 (drop_bit 22 (v :: u32))) n \<Longrightarrow> 12 \<le> n \<and> n < 22"
proof -
  assume a: "bit (push_bit 12 (drop_bit 22 v)) n"
  then have "bit v (10 + n)" "12 \<le> n" by (auto simp: bit_push_bit_iff bit_drop_bit_eq)
  then show ?thesis using bit_u32_lt [of v "10 + n"] by simp
qed

lemma PDE_IDX_times4: "PDE_IDX v * 4 = push_bit 2 (drop_bit 22 v)"
  by (simp add: PDE_IDX_bits push_bit_eq_mult)

lemma PTE_IDX_times4: "PTE_IDX v * 4 = push_bit 2 (take_bit 10 (drop_bit 12 v))"
  by (simp add: PTE_IDX_bits push_bit_eq_mult)

lemma pte_ptr_bits:
  "pte_ptr v = (NOT (mask 22) OR push_bit 12 (drop_bit 22 v)) OR push_bit 2 (take_bit 10 (drop_bit 12 v))"
proof -
  have a: "drop_bit 10 (v AND NOT (mask 22)) = push_bit 12 (drop_bit 22 v)"
    by (rule bit_eqI) (auto simp: bit_simps dest: bit_u32_lt)
  have c: "NOT (mask 22) + push_bit 12 (drop_bit 22 v) = NOT (mask 22) OR push_bit 12 (drop_bit 22 v)"
    by (rule add_disj) (auto simp: bit_not_iff bit_mask_iff dest: push12_lt)
  show ?thesis unfolding pte_ptr_def masks(1) a PTE_IDX_times4 c
    by (rule add_disj) (auto simp: bit_or_iff bit_not_iff bit_mask_iff dest!: push12_lt push_take_lt)
qed

lemma pde_ptr_idx: "PDE_IDX (pde_ptr v) = 1023" "PTE_IDX (pde_ptr v) = 1023"
  "pde_ptr v AND 0xfff = PDE_IDX v * 4"
proof -
  show "PDE_IDX (pde_ptr v) = 1023" unfolding PDE_IDX_bits pde_ptr_bits masks2
    by (rule bit_eqI) (auto simp: bit_simps dest: push_drop_22_lt bit_u32_lt)
  show "PTE_IDX (pde_ptr v) = 1023" unfolding PTE_IDX_bits pde_ptr_bits masks2
    by (rule bit_eqI) (auto simp: bit_simps dest: push_drop_22_lt bit_u32_lt)
  show "pde_ptr v AND 0xfff = PDE_IDX v * 4" unfolding pde_ptr_bits masks2 PDE_IDX_times4
    by (rule bit_eqI) (auto simp: bit_simps dest: push_drop_22_lt bit_u32_lt)
qed

lemma pte_ptr_idx: "PDE_IDX (pte_ptr v) = 1023" "PTE_IDX (pte_ptr v) = PDE_IDX v"
  "pte_ptr v AND 0xfff = PTE_IDX v * 4"
proof -
  show "PDE_IDX (pte_ptr v) = 1023" unfolding PDE_IDX_bits pte_ptr_bits masks2
    by (rule bit_eqI) (auto simp: bit_simps dest: push12_lt push_take_lt)
  show "PTE_IDX (pte_ptr v) = PDE_IDX v" unfolding PTE_IDX_bits pte_ptr_bits PDE_IDX_bits
    by (rule bit_eqI) (auto simp: bit_simps dest: push12_lt push_take_lt bit_u32_lt)
  show "pte_ptr v AND 0xfff = PTE_IDX v * 4" unfolding pte_ptr_bits masks2 PTE_IDX_times4
    by (rule bit_eqI) (auto simp: bit_simps dest: push12_lt push_take_lt)
qed

lemma mmu_pde_ptr:
  assumes "selfmap s"
  shows "mmu_translate s (pde_ptr v) = Some (cr3 s + PDE_IDX v * 4)"
  using assms by (simp add: mmu_translate_def selfmap_def pde_ptr_idx)

lemma mmu_pte_ptr:
  assumes "selfmap s" and "pde_of s v AND 1 \<noteq> 0"
  shows "mmu_translate s (pte_ptr v) = Some (pte_addr s v)"
  using assms by (simp add: mmu_translate_def selfmap_def pte_ptr_idx pde_of_def pte_addr_def)


lemma vread_pde_ptr: "selfmap s \<Longrightarrow> vread s (pde_ptr v) = Inr (pde_of s v)"
  by (simp add: vread_def mmu_pde_ptr pde_of_def)

lemma vread_pte_ptr: "selfmap s \<Longrightarrow> pde_of s v AND 1 \<noteq> 0 \<Longrightarrow> vread s (pte_ptr v) = Inr (pmem s (pte_addr s v))"
  by (simp add: vread_def mmu_pte_ptr)

lemma vwrite_pte_ptr: "selfmap s \<Longrightarrow> pde_of s v AND 1 \<noteq> 0 \<Longrightarrow>
   vwrite s (pte_ptr v) x = Inr (s\<lparr>pmem := (pmem s)(pte_addr s v := x)\<rparr>)"
  by (simp add: vwrite_def mmu_pte_ptr)

lemma page_table_add_present:
  assumes "selfmap s" and "pde_of s v AND 1 \<noteq> 0"
  shows "page_table_add v p s =
    (if pmem s (pte_addr s v) AND 1 \<noteq> 0 then Inl (ASSERT_failed ''!(*pte & 0x00000001)'')
     else Inr (s\<lparr>pmem := (pmem s)(pte_addr s v := p OR 4 OR 2 OR 1)\<rparr>))"
  using assms by (simp add: page_table_add_def vread_pde_ptr vread_pte_ptr vwrite_pte_ptr)


lemma off_bits: "x AND 0xfff = x \<Longrightarrow> bit x n \<Longrightarrow> n < (12::nat)" for x :: u32
  by (metis bit_and_iff bit_mask_iff masks2(2))

lemma frame_plus:
  fixes a x :: u32
  assumes "x AND 0xfff = x"
  shows "((a AND 0xfffff000) + x) AND 0xfffff000 = a AND 0xfffff000"
    and "((a AND 0xfffff000) + x) AND 0xfff = x"
proof -
  have e: "(a AND NOT (mask 12)) + x = (a AND NOT (mask 12)) OR x"
    by (rule add_disj) (auto simp: bit_and_iff bit_not_iff bit_mask_iff dest: off_bits [OF assms])
  show "((a AND 0xfffff000) + x) AND 0xfffff000 = a AND 0xfffff000"
    unfolding masks(3) e by (rule bit_eqI) (auto simp: bit_simps dest: off_bits [OF assms])
  show "((a AND 0xfffff000) + x) AND 0xfff = x"
    unfolding masks(3) e masks2(2) by (rule bit_eqI) (auto simp: bit_simps dest: off_bits [OF assms])
qed

lemma idx4_off: "PTE_IDX v * 4 AND 0xfff = PTE_IDX v * 4" "PDE_IDX v * 4 AND 0xfff = PDE_IDX v * 4"
  unfolding PTE_IDX_times4 PDE_IDX_times4 masks2(2)
  by (rule bit_eqI, auto simp: bit_simps dest: bit_u32_lt)+

lemma pte_frame_idx: "PDE_IDX (pte_ptr v AND 0xfffff000) = 1023" "PTE_IDX (pte_ptr v AND 0xfffff000) = PDE_IDX v"
  "(pte_ptr v AND 0xfffff000) AND 0xfff = 0"
proof -
  show "PDE_IDX (pte_ptr v AND 0xfffff000) = 1023" unfolding PDE_IDX_bits pte_ptr_bits masks2 masks(3)
    by (rule bit_eqI) (auto simp: bit_simps dest: push12_lt push_take_lt)
  show "PTE_IDX (pte_ptr v AND 0xfffff000) = PDE_IDX v" unfolding PTE_IDX_bits pte_ptr_bits PDE_IDX_bits masks(3)
    by (rule bit_eqI) (auto simp: bit_simps dest: push12_lt push_take_lt bit_u32_lt)
  show "(pte_ptr v AND 0xfffff000) AND 0xfff = 0" unfolding masks2(2) masks(3)
    by (rule bit_eqI) (auto simp: bit_simps)
qed

lemma mmu_pte_frame:
  assumes "selfmap s" and "pde_of s v AND 1 \<noteq> 0"
  shows "mmu_translate s (pte_ptr v AND 0xfffff000) = Some (pde_of s v AND 0xfffff000)"
  using assms by (simp add: mmu_translate_def selfmap_def pte_frame_idx pde_of_def)


lemma aligned_bits: "a AND 0xfff = 0 \<Longrightarrow> bit a n \<Longrightarrow> 12 \<le> n" for a :: u32
proof (rule ccontr)
  assume z: "a AND 0xfff = 0" and b: "bit a n" and lt: "\<not> 12 \<le> n"
  have "\<not> bit (a AND mask 12) n" using z by (simp add: masks2(2) [symmetric])
  with b lt show False by (simp add: bit_and_iff bit_mask_iff)
qed

lemma aligned_frame: "a AND 0xfff = 0 \<Longrightarrow> a AND 0xfffff000 = (a :: u32)"
  unfolding masks(3) by (rule bit_eqI) (auto simp: bit_simps dest: aligned_bits)

lemma aligned_plus: "a AND 0xfff = 0 \<Longrightarrow> x AND 0xfff = x \<Longrightarrow> (a + x) AND 0xfffff000 = (a :: u32)"
  using frame_plus(1) [of x a] aligned_frame [of a] by simp

lemma entry_or: "(a OR 4 OR 2 OR 1) = (a :: u32) OR mask 3"
  by (simp add: mask_eq_exp_minus_1)

lemma entry_bits: "a AND 0xfff = 0 \<Longrightarrow> (a OR 4 OR 2 OR 1) AND 0xfffff000 = (a :: u32)"
  "(a OR 4 OR 2 OR 1) AND 1 = (1 :: u32)"
proof -
  assume "a AND 0xfff = 0"
  then show "(a OR 4 OR 2 OR 1) AND 0xfffff000 = a"
    unfolding entry_or masks(3)
    by (intro bit_eqI) (auto simp: bit_and_iff bit_or_iff bit_not_iff bit_mask_iff dest: aligned_bits)
next
  show "(a OR 4 OR 2 OR 1) AND 1 = (1 :: u32)"
    unfolding entry_or by (intro bit_eqI) (auto simp: bit_and_iff bit_or_iff bit_mask_iff bit_1_iff)
qed

lemma idx4_top: "PDE_IDX v \<noteq> 1023 \<Longrightarrow> PDE_IDX v * 4 \<noteq> 0xffc"
proof
  assume ne: "PDE_IDX v \<noteq> 1023" and eq: "PDE_IDX v * 4 = 0xffc"
  have "drop_bit 2 (PDE_IDX v * 4) = PDE_IDX v"
    unfolding PDE_IDX_times4 unfolding PDE_IDX_bits by (rule bit_eqI) (auto simp: bit_simps dest: bit_u32_lt)
  with eq ne show False by simp
qed

lemma page_table_add_absent:
  assumes sm: "selfmap s" and np: "pde_of s v AND 1 = 0" and top: "PDE_IDX v \<noteq> 1023"
    and pa: "palloc (kernel_pool s) = Inr (Some f, kp)" and fal: "f AND 0xfff = 0" and fc: "f \<noteq> cr3 s"
  shows "page_table_add v p s =
    Inr (s\<lparr>kernel_pool := kp,
           pmem := (\<lambda>x. if x AND 0xfffff000 = f then 0
                        else ((pmem s)(cr3 s + PDE_IDX v * 4 := f OR 4 OR 2 OR 1)) x)
                   (f + PTE_IDX v * 4 := p OR 4 OR 2 OR 1)\<rparr>)"
proof -
  define s2 where "s2 = s\<lparr>kernel_pool := kp, pmem := (pmem s)(cr3 s + PDE_IDX v * 4 := f OR 4 OR 2 OR 1)\<rparr>"
  define s3 where "s3 = s2\<lparr>pmem := \<lambda>x. if x AND 0xfffff000 = f then 0 else pmem s2 x\<rparr>"
  have c0: "cr3 s AND 0xfff = 0" using sm by (simp add: selfmap_def)
  have cf: "(cr3 s + 0xffc) AND 0xfffff000 = cr3 s" "(cr3 s + PDE_IDX v * 4) AND 0xfffff000 = cr3 s"
    using aligned_plus [OF c0] idx4_off(2) by simp_all
  have ne_top: "cr3 s + PDE_IDX v * 4 \<noteq> cr3 s + 0xffc" using idx4_top [OF top] by simp
  have sm1: "selfmap (s\<lparr>kernel_pool := kp\<rparr>)" using sm by (simp add: selfmap_def)
  have w1: "vwrite (s\<lparr>kernel_pool := kp\<rparr>) (pde_ptr v) (f OR 4 OR 2 OR 1) = Inr s2"
    using mmu_pde_ptr [OF sm1] by (simp add: vwrite_def s2_def)
  have sm2: "selfmap s2" using sm ne_top by (simp add: selfmap_def s2_def)
  have pres2: "pde_of s2 v AND 1 \<noteq> 0" and fr2: "pde_of s2 v AND 0xfffff000 = f"
    using entry_bits(1) [OF fal] entry_bits(2) [of f] by (simp_all add: pde_of_def s2_def)
  have m3: "vmemset_page s2 (pte_ptr v AND 0xfffff000) = Inr s3"
    using mmu_pte_frame [OF sm2 pres2] fr2 by (simp add: vmemset_page_def s3_def aligned_frame [OF fal])
  have sm3: "selfmap s3" using sm2 cf(1) fc by (simp add: selfmap_def s3_def s2_def)
  have pres3: "pde_of s3 v AND 1 \<noteq> 0" and pa3: "pte_addr s3 v = f + PTE_IDX v * 4"
    using cf(2) fc pres2 fr2 by (simp_all add: pde_of_def pte_addr_def s3_def s2_def)
  have z3: "pmem s3 (f + PTE_IDX v * 4) = 0"
    using aligned_plus [OF fal idx4_off(1)] by (simp add: s3_def)
  have r3: "vread s3 (pte_ptr v) = Inr 0" using vread_pte_ptr [OF sm3 pres3] pa3 z3 by simp
  have w3: "vwrite s3 (pte_ptr v) (p OR 4 OR 2 OR 1) =
      Inr (s3\<lparr>pmem := (pmem s3)(f + PTE_IDX v * 4 := p OR 4 OR 2 OR 1)\<rparr>)"
    using vwrite_pte_ptr [OF sm3 pres3] pa3 by simp
  have "page_table_add v p s = Inr (s3\<lparr>pmem := (pmem s3)(f + PTE_IDX v * 4 := p OR 4 OR 2 OR 1)\<rparr>)"
    using vread_pde_ptr [OF sm] np pa w1 m3 r3 w3 by (simp add: page_table_add_def Let_def)
  then show ?thesis unfolding s3_def s2_def by (simp cong: if_cong)
qed


lemma unat_and_0xfff: "unat (w AND 0xfff :: u32) = unat w mod 4096"
proof -
  have "w AND 0xfff = take_bit 12 w" by (simp add: take_bit_eq_mask mask_eq_exp_minus_1)
  then show ?thesis by (simp add: unsigned_take_bit_eq take_bit_eq_mod unat_mod)
qed

lemma aligned_iff: "(w AND 0xfff = 0) = (unat (w :: u32) mod 4096 = 0)"
  by (metis unat_and_0xfff unat_eq_zero)

lemma aligned_add_page: "a AND 0xfff = 0 \<Longrightarrow> (a + word_of_nat i * 4096) AND 0xfff = (0 :: u32)"
proof -
  assume "a AND 0xfff = 0"
  then have a: "unat a mod 4096 = 0" by (simp add: aligned_iff)
  have d: "(4096::nat) dvd 4294967296" by simp
  have y: "unat (word_of_nat i * 4096 :: u32) mod 4096 = 0"
    by (simp add: unat_word_ariths mod_mod_cancel [OF d] unat_of_nat)
  have "unat (a + word_of_nat i * 4096) mod 4096 = (unat a + unat (word_of_nat i * 4096 :: u32)) mod 4096"
    by (simp add: unat_word_ariths mod_mod_cancel [OF d])
  also have "\<dots> = (unat a mod 4096 + unat (word_of_nat i * 4096 :: u32) mod 4096) mod 4096"
    by (simp add: mod_add_eq)
  finally show ?thesis using a y by (simp add: aligned_iff)
qed

lemma palloc_frame:
  assumes wf: "pool_wf (kernel_pool s)" and nf: "\<not> bitmap_full (pool_bitmap (kernel_pool s))"
    and dr: "dir_reserved s"
  shows "\<exists>f kp. palloc (kernel_pool s) = Inr (Some f, kp) \<and> f AND 0xfff = 0 \<and> f \<noteq> cr3 s"
proof -
  obtain i bm where i: "i < 8 * btmp_bytes_len (pool_bitmap (kernel_pool s))"
      "\<not> bitmap_scan_test (pool_bitmap (kernel_pool s)) i"
    and pa: "palloc (kernel_pool s) = Inr (Some (phy_addr_start (kernel_pool s) + word_of_nat (i * PG_SIZE)),
                                            kernel_pool s\<lparr>pool_bitmap := bm\<rparr>)"
    using palloc_found [of "kernel_pool s"] wf nf by (auto simp: pool_wf_def)
  have "phy_addr_start (kernel_pool s) + word_of_nat (i * PG_SIZE) \<noteq> cr3 s"
    using dr i by (auto simp: dir_reserved_def list_all_iff split: if_splits)
  moreover have "(phy_addr_start (kernel_pool s) + word_of_nat (i * PG_SIZE)) AND 0xfff = 0"
    using dr by (simp add: dir_reserved_def aligned_add_page)
  ultimately show ?thesis using pa by blast
qed


lemma pte_addr_frame: "pte_addr s v AND 0xfffff000 = pde_of s v AND 0xfffff000"
  by (simp add: pte_addr_def frame_plus(1) idx4_off(1))

lemma dir_entry_frame:
  "cr3 s AND 0xfff = 0 \<Longrightarrow> (cr3 s + PDE_IDX v * 4) AND 0xfffff000 = cr3 s"
  "cr3 s AND 0xfff = 0 \<Longrightarrow> (cr3 s + 0xffc) AND 0xfffff000 = cr3 s"
  using aligned_plus [of "cr3 s"] idx4_off(2) by simp_all

lemma frames_differ: "a AND 0xfffff000 \<noteq> b AND 0xfffff000 \<Longrightarrow> a \<noteq> (b :: u32)"
  by auto

lemma mmu_translate_entries:
  "pde_of s v AND 1 \<noteq> 0 \<Longrightarrow> mmu_translate s v =
     (if pmem s (pte_addr s v) AND 1 = 0 then None
      else Some ((pmem s (pte_addr s v) AND 0xfffff000) + (v AND 0xfff)))"
  by (simp add: mmu_translate_def pde_of_def pte_addr_def)

lemma mmu_translate_Some:
  "mmu_translate s v = Some a \<Longrightarrow> pde_of s v AND 1 \<noteq> 0 \<and> pmem s (pte_addr s v) AND 1 \<noteq> 0 \<and>
     a = (pmem s (pte_addr s v) AND 0xfffff000) + (v AND 0xfff)"
  by (auto simp: mmu_translate_def pde_of_def pte_addr_def Let_def split: if_splits)

lemma mmu_translate_cong: "pmem s' = pmem s \<Longrightarrow> cr3 s' = cr3 s \<Longrightarrow> mmu_translate s' = mmu_translate s"
  by (simp add: mmu_translate_def fun_eq_iff cong: if_cong)

lemma selfmap_pmem_upd:
  "selfmap s \<Longrightarrow> x AND 0xfffff000 \<noteq> cr3 s \<Longrightarrow> selfmap (s\<lparr>pmem := (pmem s)(x := y)\<rparr>)"
  using dir_entry_frame(2) [of s] by (auto simp: selfmap_def)

lemma pte_write_maps:
  assumes sm: "selfmap s" and pres: "pde_of s v AND 1 \<noteq> 0"
    and apart: "pde_of s v AND 0xfffff000 \<noteq> cr3 s"
  shows "selfmap (s\<lparr>pmem := (pmem s)(pte_addr s v := e)\<rparr>) \<and>
         pde_of (s\<lparr>pmem := (pmem s)(pte_addr s v := e)\<rparr>) v = pde_of s v \<and>
         mmu_translate (s\<lparr>pmem := (pmem s)(pte_addr s v := e)\<rparr>) v =
           (if e AND 1 = 0 then None else Some ((e AND 0xfffff000) + (v AND 0xfff)))"
proof -
  have c0: "cr3 s AND 0xfff = 0" using sm by (simp add: selfmap_def)
  have fr: "pte_addr s v AND 0xfffff000 \<noteq> cr3 s" using apart pte_addr_frame [of s v] by simp
  have ne: "cr3 s + PDE_IDX v * 4 \<noteq> pte_addr s v"
    using fr dir_entry_frame(1) [OF c0, of v] by auto
  let ?s' = "s\<lparr>pmem := (pmem s)(pte_addr s v := e)\<rparr>"
  have sm': "selfmap ?s'" using selfmap_pmem_upd [OF sm fr] .
  have pde': "pde_of ?s' v = pde_of s v" using ne by (simp add: pde_of_def)
  have "pte_addr ?s' v = pte_addr s v" using pde' by (simp add: pte_addr_def)
  then have "mmu_translate ?s' v = (if e AND 1 = 0 then None else Some ((e AND 0xfffff000) + (v AND 0xfff)))"
    using mmu_translate_entries [of ?s' v] pres pde' by simp
  with sm' pde' show ?thesis by simp
qed

lemma add_present_maps:
  assumes sm: "selfmap s" and pres: "pde_of s v AND 1 \<noteq> 0" and clear: "pmem s (pte_addr s v) AND 1 = 0"
    and apart: "pde_of s v AND 0xfffff000 \<noteq> cr3 s" and pal: "p AND 0xfff = 0"
  shows "\<exists>s'. page_table_add v p s = Inr s' \<and> selfmap s' \<and> mmu_translate s' v = Some (p + (v AND 0xfff)) \<and>
             pde_of s' v = pde_of s v \<and> cr3 s' = cr3 s \<and> s' = s\<lparr>pmem := pmem s'\<rparr>"
  using page_table_add_present [OF sm pres] clear pte_write_maps [OF sm pres apart, of "p OR 4 OR 2 OR 1"]
    entry_bits(1) [OF pal] entry_bits(2) [of p] by auto

lemma add_absent_maps:
  assumes sm: "selfmap s" and np: "pde_of s v AND 1 = 0" and top: "PDE_IDX v \<noteq> 1023"
    and pa: "palloc (kernel_pool s) = Inr (Some f, kp)" and fal: "f AND 0xfff = 0" and fc: "f \<noteq> cr3 s"
    and pal: "p AND 0xfff = 0"
  shows "\<exists>s'. page_table_add v p s = Inr s' \<and> selfmap s' \<and> mmu_translate s' v = Some (p + (v AND 0xfff)) \<and>
             pde_of s' v AND 0xfffff000 \<noteq> cr3 s' \<and> cr3 s' = cr3 s"
proof -
  let ?m = "(\<lambda>x. if x AND 0xfffff000 = f then 0 else ((pmem s)(cr3 s + PDE_IDX v * 4 := f OR 4 OR 2 OR 1)) x)
              (f + PTE_IDX v * 4 := p OR 4 OR 2 OR 1)"
  let ?s' = "s\<lparr>kernel_pool := kp, pmem := ?m\<rparr>"
  have c0: "cr3 s AND 0xfff = 0" using sm by (simp add: selfmap_def)
  have ff: "(f + PTE_IDX v * 4) AND 0xfffff000 = f" using aligned_plus [OF fal idx4_off(1)] .
  have ne1: "cr3 s + 0xffc \<noteq> f + PTE_IDX v * 4" and ne2: "cr3 s + PDE_IDX v * 4 \<noteq> f + PTE_IDX v * 4"
    using ff dir_entry_frame(1) [OF c0, of v] dir_entry_frame(2) [OF c0] fc by metis+
  have ne_top: "cr3 s + PDE_IDX v * 4 \<noteq> cr3 s + 0xffc" using idx4_top [OF top] by simp
  have pde': "pde_of ?s' v = f OR 4 OR 2 OR 1"
    using ne2 dir_entry_frame(1) [OF c0, of v] fc by (simp add: pde_of_def)
  have sm': "selfmap ?s'"
    using sm ne1 ne_top dir_entry_frame(2) [OF c0] fc by (simp add: selfmap_def)
  have pres': "pde_of ?s' v AND 1 \<noteq> 0" using pde' entry_bits(2) [of f] by simp
  have pta: "pte_addr ?s' v = f + PTE_IDX v * 4" using pde' entry_bits(1) [OF fal] by (simp add: pte_addr_def)
  have "mmu_translate ?s' v = Some (p + (v AND 0xfff))"
    using mmu_translate_entries [OF pres'] pta entry_bits(1) [OF pal] entry_bits(2) [of p] by simp
  moreover have "pde_of ?s' v AND 0xfffff000 \<noteq> cr3 s" using pde' entry_bits(1) [OF fal] fc by simp
  ultimately show ?thesis using page_table_add_absent [OF sm np top pa fal fc, of p] sm' by auto
qed


lemma pte_remove_unmaps:
  assumes sm: "selfmap s" and pres: "pde_of s v AND 1 \<noteq> 0" and apart: "pde_of s v AND 0xfffff000 \<noteq> cr3 s"
  shows "\<exists>s'. page_table_pte_remove v s = Inr s' \<and> selfmap s' \<and> mmu_translate s' v = None \<and>
             pde_of s' v = pde_of s v \<and> cr3 s' = cr3 s \<and> s' = s\<lparr>pmem := pmem s'\<rparr>"
proof -
  have "(x AND NOT 1) AND 1 = (0 :: u32)" for x by (rule bit_eqI) (auto simp: bit_simps)
  then show ?thesis
    using vread_pte_ptr [OF sm pres] vwrite_pte_ptr [OF sm pres] pte_write_maps [OF sm pres apart]
    by (auto simp: page_table_pte_remove_def)
qed

subsection \<open>Properties of the page tables\<close>

text \<open>
  With the page directory mapped into its own last entry, the addresses
  \<open>pde_ptr v\<close> and \<open>pte_ptr v\<close> that the kernel computes are, through the MMU, the
  physical addresses of the directory entry of \<open>v\<close> and (when that entry is present) of
  its page-table entry.
\<close>

theorem selfmap_entry_ptrs:
  "selfmap s \<Longrightarrow> mmu_translate s (pde_ptr v) = Some (cr3 s + PDE_IDX v * 4) \<and>
     (pde_of s v AND 1 \<noteq> 0 \<longrightarrow> mmu_translate s (pte_ptr v) = Some (pte_addr s v))"
  by (simp add: mmu_pde_ptr mmu_pte_ptr)

theorem selfmap_entry_ptrs_witness:
  "selfmap ex_pg \<and> pde_of ex_pg 0x5000 AND 1 \<noteq> 0 \<and>
   mmu_translate ex_pg (pde_ptr 0x5000) = Some 0x100000 \<and> mmu_translate ex_pg (pte_ptr 0x5000) = Some 0x101014"
proof -
  have sm: "selfmap ex_pg" by (simp add: selfmap_def ex_pg_def)
  have pr: "pde_of ex_pg 0x5000 AND 1 \<noteq> 0" by (simp add: pde_of_def ex_pg_def PDE_IDX_def)
  have "cr3 ex_pg + PDE_IDX 0x5000 * 4 = 0x100000" and "pte_addr ex_pg 0x5000 = 0x101014"
    by (simp_all add: ex_pg_def PDE_IDX_def PTE_IDX_def pte_addr_def pde_of_def)
  with selfmap_entry_ptrs [OF sm, of "0x5000"] sm pr show ?thesis by simp
qed

text \<open>
  C15: \<open>page_table_add v p\<close> on an unmapped page below the self-mapped top 4 MiB maps
  it to the page-aligned frame \<open>p\<close> and keeps the directory self-mapped. If the directory
  entry is absent, a page table is taken from the kernel pool, which must not be full and
  must not hand out the directory's own frame; if it is present, its page table is not the
  directory.
\<close>

theorem page_table_add_maps:
  assumes sm: "selfmap s" and unm: "mmu_translate s v = None" and top: "PDE_IDX v \<noteq> 1023"
    and pal: "p AND 0xfff = 0"
    and apart: "pde_of s v AND 1 \<noteq> 0 \<Longrightarrow> pde_of s v AND 0xfffff000 \<noteq> cr3 s"
    and pool: "pde_of s v AND 1 = 0 \<Longrightarrow>
                 pool_wf (kernel_pool s) \<and> \<not> bitmap_full (pool_bitmap (kernel_pool s)) \<and> dir_reserved s"
  shows "\<exists>s'. page_table_add v p s = Inr s' \<and> selfmap s' \<and> mmu_translate s' v = Some (p + (v AND 0xfff))"
proof (cases "pde_of s v AND 1 = 0")
  case True
  then obtain f kp where "palloc (kernel_pool s) = Inr (Some f, kp)" "f AND 0xfff = 0" "f \<noteq> cr3 s"
    using palloc_frame pool by blast
  from add_absent_maps [OF sm True top this pal] show ?thesis by blast
next
  case False
  then have "pmem s (pte_addr s v) AND 1 = 0" using unm mmu_translate_entries [of s v] by (auto split: if_splits)
  from add_present_maps [OF sm _ this apart pal] False show ?thesis by blast
qed

theorem page_table_add_maps_witness:
  "selfmap ex_pg \<and> mmu_translate ex_pg 0x400000 = None \<and> PDE_IDX 0x400000 \<noteq> 1023 \<and>
   (0x301000 :: u32) AND 0xfff = 0 \<and> pde_of ex_pg 0x400000 AND 1 = 0 \<and>
   pool_wf (kernel_pool ex_pg) \<and> \<not> bitmap_full (pool_bitmap (kernel_pool ex_pg)) \<and> dir_reserved ex_pg \<and>
   (\<exists>s'. page_table_add 0x400000 0x301000 ex_pg = Inr s' \<and> mmu_translate s' 0x400000 = Some 0x301000)"
proof -
  have sm: "selfmap ex_pg" by (simp add: selfmap_def ex_pg_def)
  have unm: "mmu_translate ex_pg 0x400000 = None"
    by (simp add: mmu_translate_def ex_pg_def PDE_IDX_def)
  have top: "PDE_IDX 0x400000 \<noteq> 1023" by (simp add: PDE_IDX_def)
  have pal: "(0x301000 :: u32) AND 0xfff = 0" by simp
  have np: "pde_of ex_pg 0x400000 AND 1 = 0" by (simp add: pde_of_def ex_pg_def PDE_IDX_def)
  have pw: "pool_wf (kernel_pool ex_pg) \<and> \<not> bitmap_full (pool_bitmap (kernel_pool ex_pg)) \<and> dir_reserved ex_pg"
    by (simp add: pool_wf_def bitmap_wf_def bitmap_full_def dir_reserved_def ex_pg_def ex_mem_def ex_kpool_def upt_rec)
  from page_table_add_maps [OF sm unm top pal _ pw] np
  obtain s' where "page_table_add 0x400000 0x301000 ex_pg = Inr s'" "mmu_translate s' 0x400000 = Some 0x301000"
    by auto
  with sm unm top pal np pw show ?thesis by blast
qed


text \<open>
  Mapping an address that is already mapped stops the machine: the \<open>ASSERT\<close> on
  the page-table entry's present bit fails.
\<close>

theorem page_table_add_double_map:
  "selfmap s \<Longrightarrow> mmu_translate s v = Some a \<Longrightarrow>
   page_table_add v p s = Inl (ASSERT_failed ''!(*pte & 0x00000001)'')"
  using mmu_translate_Some [of s v a] page_table_add_present [of s v p] by auto

theorem page_table_add_double_map_witness:
  "selfmap ex_pg \<and> mmu_translate ex_pg 0x5000 = Some 0x300000 \<and>
   page_table_add 0x5000 0x301000 ex_pg = Inl (ASSERT_failed ''!(*pte & 0x00000001)'')"
proof -
  have sm: "selfmap ex_pg" by (simp add: selfmap_def ex_pg_def)
  have m: "mmu_translate ex_pg 0x5000 = Some 0x300000"
    by (simp add: mmu_translate_def ex_pg_def PDE_IDX_def PTE_IDX_def)
  show ?thesis using page_table_add_double_map [OF sm m] sm m by simp
qed

text \<open>
  On a mapped address \<open>addr_v2p\<close>, which reads the page-table entry through
  \<open>pte_ptr\<close>, returns the physical address the MMU translates it to.
\<close>

theorem addr_v2p_translate:
  "selfmap s \<Longrightarrow> mmu_translate s v = Some a \<Longrightarrow> addr_v2p v s = Inr a"
  using mmu_translate_Some [of s v a] vread_pte_ptr [of s v] by (auto simp: addr_v2p_def)

theorem addr_v2p_translate_witness:
  "selfmap ex_pg \<and> mmu_translate ex_pg 0x5123 = Some 0x300123 \<and> addr_v2p 0x5123 ex_pg = Inr 0x300123"
proof -
  have sm: "selfmap ex_pg" by (simp add: selfmap_def ex_pg_def)
  have m: "mmu_translate ex_pg 0x5123 = Some 0x300123"
    by (simp add: mmu_translate_def ex_pg_def PDE_IDX_def PTE_IDX_def)
  show ?thesis using addr_v2p_translate [OF sm m] sm m by simp
qed

text \<open>
  C18: map, unmap, map: \<open>page_table_pte_remove\<close> on a mapped page (whose page table is
  not the directory) leaves it unmapped, and mapping it again to any aligned frame succeeds
  (the present-bit \<open>ASSERT\<close> does not fire) and the MMU then translates to the new frame.
\<close>

theorem map_unmap_map:
  assumes sm: "selfmap s" and m: "mmu_translate s v = Some a"
    and apart: "pde_of s v AND 0xfffff000 \<noteq> cr3 s" and qal: "q AND 0xfff = 0"
  shows "\<exists>s1 s2. page_table_pte_remove v s = Inr s1 \<and> mmu_translate s1 v = None \<and>
                 page_table_add v q s1 = Inr s2 \<and> mmu_translate s2 v = Some (q + (v AND 0xfff))"
proof -
  have pres: "pde_of s v AND 1 \<noteq> 0" using mmu_translate_Some [OF m] by simp
  obtain s1 where r: "page_table_pte_remove v s = Inr s1" and sm1: "selfmap s1"
    and un1: "mmu_translate s1 v = None" and pde1: "pde_of s1 v = pde_of s v" and c1: "cr3 s1 = cr3 s"
    using pte_remove_unmaps [OF sm pres apart] by blast
  have pres1: "pde_of s1 v AND 1 \<noteq> 0" using pres pde1 by simp
  have clear1: "pmem s1 (pte_addr s1 v) AND 1 = 0"
    using un1 mmu_translate_entries [OF pres1] by (auto split: if_splits)
  have apart1: "pde_of s1 v AND 0xfffff000 \<noteq> cr3 s1" using apart pde1 c1 by simp
  from add_present_maps [OF sm1 pres1 clear1 apart1 qal] r un1 show ?thesis by blast
qed

theorem map_unmap_map_witness:
  "selfmap ex_pg \<and> mmu_translate ex_pg 0x5000 = Some 0x300000 \<and>
   pde_of ex_pg 0x5000 AND 0xfffff000 \<noteq> cr3 ex_pg \<and> (0x302000 :: u32) AND 0xfff = 0 \<and>
   (\<exists>s1 s2. page_table_pte_remove 0x5000 ex_pg = Inr s1 \<and> mmu_translate s1 0x5000 = None \<and>
            page_table_add 0x5000 0x302000 s1 = Inr s2 \<and> mmu_translate s2 0x5000 = Some 0x302000)"
proof -
  have sm: "selfmap ex_pg" by (simp add: selfmap_def ex_pg_def)
  have m: "mmu_translate ex_pg 0x5000 = Some 0x300000"
    by (simp add: mmu_translate_def ex_pg_def PDE_IDX_def PTE_IDX_def)
  have ap: "pde_of ex_pg 0x5000 AND 0xfffff000 \<noteq> cr3 ex_pg" by (simp add: pde_of_def ex_pg_def PDE_IDX_def)
  have q: "(0x302000 :: u32) AND 0xfff = 0" by simp
  show ?thesis using map_unmap_map [OF sm m ap q] sm m ap q by simp
qed

end
