(* ===== verification/Alloc.thy ===== *)
theory Alloc
  imports Paging
begin

text \<open>
  The page allocator of \<open>src/kernel/memory.c\<close> on top of the pools and the page tables:
  \<open>malloc_page\<close> (virtual pages from \<open>vaddr_get\<close>, one frame per page from
  \<open>palloc\<close>, each mapped by \<open>page_table_add\<close>), \<open>get_kernel_pages\<close>,
  \<open>get_user_pages\<close>, \<open>get_a_page\<close>, \<open>get_a_page_without_opvaddrbitmap\<close> and
  \<open>mfree_page\<close>. The pool locks are the atomicity of each call.
\<close>

unbundle bit_operations_syntax

section \<open>Page allocation and release\<close>

text \<open>The loop of \<open>malloc_page\<close>: \<open>while (cnt-- > 0)\<close>; \<open>False\<close> is its \<open>return NULL\<close>.\<close>

function malloc_loop :: "pool_flags \<Rightarrow> u32 \<Rightarrow> nat \<Rightarrow> mem_state \<Rightarrow> fatal + (bool \<times> mem_state)" where
  "malloc_loop pf vaddr cnt s =
     (if cnt = 0 then Inr (True, s)
      else (case palloc (pool_of pf s) of
              Inl e \<Rightarrow> Inl e
            | Inr (None, p) \<Rightarrow> Inr (False, set_pool pf p s)
            | Inr (Some page_phyaddr, p) \<Rightarrow>
                (case page_table_add vaddr page_phyaddr (set_pool pf p s) of
                   Inl e \<Rightarrow> Inl e
                 | Inr s' \<Rightarrow> malloc_loop pf (vaddr + 0x1000) (cnt - 1) s')))"
  by pat_completeness auto
termination
  by (relation "measure (\<lambda>(pf, vaddr, cnt, s). cnt)") auto

declare malloc_loop.simps [simp del]

definition malloc_page :: "pool_flags \<Rightarrow> nat \<Rightarrow> mem_state \<Rightarrow> fatal + (u32 option \<times> mem_state)" where
  "malloc_page pf pg_cnt s =
     (if \<not> (0 < pg_cnt \<and> pg_cnt < 3840) then Inl (ASSERT_failed ''pg_cnt > 0 && pg_cnt < 3840'')
      else (case vaddr_get pf pg_cnt s of
              Inl e \<Rightarrow> Inl e
            | Inr (None, s1) \<Rightarrow> Inr (None, s1)
            | Inr (Some vstart, s1) \<Rightarrow>
                (case malloc_loop pf vstart pg_cnt s1 of
                   Inl e \<Rightarrow> Inl e
                 | Inr (False, s2) \<Rightarrow> Inr (None, s2)
                 | Inr (True, s2) \<Rightarrow> Inr (Some vstart, s2))))"

text \<open>\<open>memset(vaddr, 0, pg_cnt * PG_SIZE)\<close> on a page-aligned address, page by page.\<close>

function vmemset_pages :: "mem_state \<Rightarrow> u32 \<Rightarrow> nat \<Rightarrow> fatal + mem_state" where
  "vmemset_pages s v cnt =
     (if cnt = 0 then Inr s
      else (case vmemset_page s v of Inl e \<Rightarrow> Inl e | Inr s' \<Rightarrow> vmemset_pages s' (v + 0x1000) (cnt - 1)))"
  by pat_completeness auto
termination
  by (relation "measure (\<lambda>(s, v, cnt). cnt)") auto

declare vmemset_pages.simps [simp del]

definition get_kernel_pages :: "nat \<Rightarrow> mem_state \<Rightarrow> fatal + (u32 option \<times> mem_state)" where
  "get_kernel_pages pg_cnt s =
     (case malloc_page PF_KERNEL pg_cnt s of
        Inl e \<Rightarrow> Inl e
      | Inr (None, s1) \<Rightarrow> Inr (None, s1)
      | Inr (Some vaddr, s1) \<Rightarrow>
          (case vmemset_pages s1 vaddr pg_cnt of Inl e \<Rightarrow> Inl e | Inr s2 \<Rightarrow> Inr (Some vaddr, s2)))"

text \<open>\<open>get_user_pages\<close> clears the pages whether or not \<open>malloc_page\<close> succeeded:
  on failure it clears \<open>pg_cnt\<close> pages at address 0.\<close>

definition get_user_pages :: "nat \<Rightarrow> mem_state \<Rightarrow> fatal + (u32 option \<times> mem_state)" where
  "get_user_pages pg_cnt s =
     (case malloc_page PF_USER pg_cnt s of
        Inl e \<Rightarrow> Inl e
      | Inr (r, s1) \<Rightarrow>
          (case vmemset_pages s1 (case r of None \<Rightarrow> 0 | Some v \<Rightarrow> v) pg_cnt of
             Inl e \<Rightarrow> Inl e | Inr s2 \<Rightarrow> Inr (r, s2)))"

text \<open>
  \<open>get_a_page\<close>: the bit index is \<open>(vaddr - vaddr_start) / PG_SIZE\<close> as an
  \<open>int32_t\<close>, asserted positive.
\<close>

definition get_a_page :: "pool_flags \<Rightarrow> u32 \<Rightarrow> mem_state \<Rightarrow> fatal + (u32 option \<times> mem_state)" where
  "get_a_page pf vaddr s =
     (let s1 =
        (if cur_pgdir s \<noteq> None \<and> pf = PF_USER then
           (let bit_idx = (vaddr - vaddr_start (cur_uvaddr s)) div 0x1000 in
            if \<not> 0 < sint bit_idx then Inl (ASSERT_failed ''bit_idx > 0'')
            else (case bitmap_set (vaddr_bitmap (cur_uvaddr s)) (unat bit_idx) 1 of
                    Inl e \<Rightarrow> Inl e
                  | Inr bm \<Rightarrow> Inr (s\<lparr>cur_uvaddr := (cur_uvaddr s)\<lparr>vaddr_bitmap := bm\<rparr>\<rparr>)))
         else if cur_pgdir s = None \<and> pf = PF_KERNEL then
           (let bit_idx = (vaddr - vaddr_start (kernel_vaddr s)) div 0x1000 in
            if \<not> 0 < sint bit_idx then Inl (ASSERT_failed ''bit_idx > 0'')
            else (case bitmap_set (vaddr_bitmap (kernel_vaddr s)) (unat bit_idx) 1 of
                    Inl e \<Rightarrow> Inl e
                  | Inr bm \<Rightarrow> Inr (s\<lparr>kernel_vaddr := (kernel_vaddr s)\<lparr>vaddr_bitmap := bm\<rparr>\<rparr>)))
         else Inl (PANIC_called ''get_a_page: not allow kernel alloc userspace or user alloc kernelspace by get_a_page''))
      in case s1 of
           Inl e \<Rightarrow> Inl e
         | Inr s1 \<Rightarrow>
             (case palloc (pool_of pf s1) of
                Inl e \<Rightarrow> Inl e
              | Inr (None, p) \<Rightarrow> Inr (None, set_pool pf p s1)
              | Inr (Some page_phyaddr, p) \<Rightarrow>
                  (case page_table_add vaddr page_phyaddr (set_pool pf p s1) of
                     Inl e \<Rightarrow> Inl e | Inr s2 \<Rightarrow> Inr (Some vaddr, s2))))"

definition get_a_page_without_opvaddrbitmap ::
    "pool_flags \<Rightarrow> u32 \<Rightarrow> mem_state \<Rightarrow> fatal + (u32 option \<times> mem_state)" where
  "get_a_page_without_opvaddrbitmap pf vaddr s =
     (case palloc (pool_of pf s) of
        Inl e \<Rightarrow> Inl e
      | Inr (None, p) \<Rightarrow> Inr (None, set_pool pf p s)
      | Inr (Some page_phyaddr, p) \<Rightarrow>
          (case page_table_add vaddr page_phyaddr (set_pool pf p s) of
             Inl e \<Rightarrow> Inl e | Inr s2 \<Rightarrow> Inr (Some vaddr, s2)))"

text \<open>
  The two loops of \<open>mfree_page\<close>, one per pool (\<open>user\<close>): each page's frame is found
  with \<open>addr_v2p\<close>, checked to lie in the pool, returned with \<open>pfree\<close> and unmapped.
\<close>

function mfree_loop :: "bool \<Rightarrow> u32 \<Rightarrow> nat \<Rightarrow> nat \<Rightarrow> mem_state \<Rightarrow> fatal + mem_state" where
  "mfree_loop user vaddr page_cnt pg_cnt s =
     (if page_cnt < pg_cnt then
        (case addr_v2p vaddr s of
           Inl e \<Rightarrow> Inl e
         | Inr pg_phy_addr \<Rightarrow>
             if user \<and> \<not> (pg_phy_addr mod 0x1000 = 0 \<and> phy_addr_start (user_pool s) \<le> pg_phy_addr)
             then Inl (ASSERT_failed ''pg_phy_addr % PG_SIZE == 0 && pg_phy_addr >= user_pool.phy_addr_start'')
             else if \<not> user \<and> \<not> (pg_phy_addr mod 0x1000 = 0 \<and> phy_addr_start (kernel_pool s) \<le> pg_phy_addr \<and>
                                  pg_phy_addr < phy_addr_start (user_pool s))
             then Inl (ASSERT_failed ''pg_phy_addr % PG_SIZE == 0 && pg_phy_addr >= kernel_pool.phy_addr_start && pg_phy_addr < user_pool.phy_addr_start'')
             else (case pfree pg_phy_addr s of
                     Inl e \<Rightarrow> Inl e
                   | Inr s1 \<Rightarrow>
                       (case page_table_pte_remove vaddr s1 of
                          Inl e \<Rightarrow> Inl e
                        | Inr s2 \<Rightarrow> mfree_loop user (vaddr + 0x1000) (Suc page_cnt) pg_cnt s2)))
      else Inr s)"
  by pat_completeness auto
termination
  by (relation "measure (\<lambda>(user, vaddr, page_cnt, pg_cnt, s). pg_cnt - page_cnt)") auto

declare mfree_loop.simps [simp del]

definition mfree_page :: "pool_flags \<Rightarrow> u32 \<Rightarrow> nat \<Rightarrow> mem_state \<Rightarrow> fatal + mem_state" where
  "mfree_page pf vaddr pg_cnt s =
     (if \<not> (1 \<le> pg_cnt \<and> vaddr mod 0x1000 = 0) then Inl (ASSERT_failed ''pg_cnt >= 1 && vaddr % PG_SIZE == 0'')
      else (case addr_v2p vaddr s of
              Inl e \<Rightarrow> Inl e
            | Inr pg_phy_addr \<Rightarrow>
                if \<not> (pg_phy_addr mod 0x1000 = 0 \<and> 0x102000 \<le> pg_phy_addr)
                then Inl (ASSERT_failed ''(pg_phy_addr % PG_SIZE) == 0 && pg_phy_addr >= 0x102000'')
                else (case mfree_loop (phy_addr_start (user_pool s) \<le> pg_phy_addr) vaddr 0 pg_cnt s of
                        Inl e \<Rightarrow> Inl e
                      | Inr s1 \<Rightarrow> vaddr_remove pf vaddr pg_cnt s1)))"


text \<open>
  The kernel heap is coherent with the page tables: the kernel pool's frames are aligned
  and above the directory and tables the loader placed below \<open>0x102000\<close>; every page of
  the kernel virtual pool has a present directory entry whose table is not the directory
  (the loader creates the tables of the kernel's 1 GiB in advance), and every page whose
  bit is clear is unmapped.
\<close>

definition kheap_ok :: "mem_state \<Rightarrow> bool" where
  "kheap_ok s \<longleftrightarrow> selfmap s \<and> pools_wf s \<and> vpool_wf (kernel_vaddr s) \<and>
     phy_addr_start (kernel_pool s) AND 0xfff = 0 \<and> 0x102000 \<le> phy_addr_start (kernel_pool s) \<and>
     vaddr_start (kernel_vaddr s) AND 0xfff = 0 \<and>
     list_all (\<lambda>i. let v = vaddr_start (kernel_vaddr s) + word_of_nat (i * PG_SIZE) in
                    pde_of s v AND 1 \<noteq> 0 \<and> pde_of s v AND 0xfffff000 \<noteq> cr3 s \<and>
                    (if bitmap_scan_test (vaddr_bitmap (kernel_vaddr s)) i then True
                     else mmu_translate s v = None))
       [0..<8 * btmp_bytes_len (vaddr_bitmap (kernel_vaddr s))]"

text \<open>
  A kernel heap as the loader leaves it: directory entries 0 and 768 share the page table
  at \<open>0x101000\<close>, the heap's first page \<open>0xc0100000\<close> is mapped to frame
  \<open>0x200000\<close>, its other seven pages are unmapped.
\<close>

definition ex_kheap :: mem_state where
  "ex_kheap = ex_pg\<lparr>pmem := (\<lambda>_. 0)(0x100ffc := 0x100007, 0x100000 := 0x101007, 0x100c00 := 0x101007,
                                    0x101400 := 0x200007)\<rparr>"

text \<open>
  A user process whose virtual pool has one free page, with the low memory identity-mapped
  as the loader maps it (virtual pages 0 and 1 to frames 0 and 1) and a value at physical
  address \<open>0x10\<close>.
\<close>

definition ex_low :: mem_state where
  "ex_low = ex_kheap\<lparr>cur_pgdir := Some 0x100000,
                      cur_uvaddr := \<lparr>vaddr_bitmap = \<lparr>btmp_bytes_len = 1, bits = (\<lambda>_. 0)(0 := 0xfe)\<rparr>,
                                     vaddr_start = 0x8048000\<rparr>,
                      pmem := (pmem ex_kheap)(0x101000 := 0x7, 0x101004 := 0x1007, 0x10 := 0xdeadbeef)\<rparr>"

subsection \<open>Lemmas\<close>

lemma aligned_mod: "(w AND 0xfff = 0) = (w mod 0x1000 = (0 :: u32))"
proof -
  have "unat (w mod 0x1000) = unat w mod 4096" by (simp add: unat_mod)
  then show ?thesis by (metis aligned_iff unat_eq_zero)
qed

lemma vaddr_get_kernel_one:
  assumes wf: "vpool_wf (kernel_vaddr s)" and ret: "vaddr_get PF_KERNEL 1 s = Inr (Some v, s1)"
  shows "\<exists>i. i < 8 * btmp_bytes_len (vaddr_bitmap (kernel_vaddr s)) \<and>
             \<not> bitmap_scan_test (vaddr_bitmap (kernel_vaddr s)) i \<and>
             v = vaddr_start (kernel_vaddr s) + word_of_nat (i * PG_SIZE) \<and>
             s1 = s\<lparr>kernel_vaddr := kernel_vaddr s1\<rparr> \<and>
             vaddr_clear (kernel_vaddr s1) v 1 = Inr (kernel_vaddr s)"
proof -
  let ?b = "vaddr_bitmap (kernel_vaddr s)"
  have bwf: "bitmap_wf ?b" using wf by (simp add: vpool_wf_def)
  obtain va where sc: "vaddr_scan_set (kernel_vaddr s) 1 = Inr (Some v, va)" and s1: "s1 = s\<lparr>kernel_vaddr := va\<rparr>"
    using ret by (auto simp: vaddr_get_def split: sum.splits)
  have nf: "\<not> bitmap_full ?b" using sc bitmap_scan_full [of ?b 1] by (auto simp: vaddr_scan_set_def)
  obtain st where st: "bitmap_scan ?b 1 = Inr (int st)" "st < 8 * btmp_bytes_len ?b" "\<not> bitmap_scan_test ?b st"
    using bitmap_scan_one [OF bwf nf] by blast
  have "v = vaddr_start (kernel_vaddr s) + word_of_nat (st * PG_SIZE)"
    using sc st(1) by (auto simp: vaddr_scan_set_def of_nat_mult split: sum.splits)
  moreover have "vaddr_clear va v 1 = Inr (kernel_vaddr s)" by (rule vaddr_scan_set_Some [OF wf _ sc]) simp
  ultimately show ?thesis using st s1 by auto
qed

lemma malloc_loop_one_present:
  assumes sm: "selfmap s" and pw: "pool_wf (kernel_pool s)" and al: "phy_addr_start (kernel_pool s) AND 0xfff = 0"
    and pres: "pde_of s v AND 1 \<noteq> 0" and apart: "pde_of s v AND 0xfffff000 \<noteq> cr3 s"
    and unm: "mmu_translate s v = None" and val: "v AND 0xfff = 0"
    and ret: "malloc_loop PF_KERNEL v 1 s = Inr (True, s1)"
  shows "\<exists>a i. mmu_translate s1 v = Some a \<and> unat a = unat (phy_addr_start (kernel_pool s)) + i * PG_SIZE \<and>
           i < 8 * btmp_bytes_len (pool_bitmap (kernel_pool s)) \<and> a AND 0xfff = 0 \<and>
           pool_free_bit (kernel_pool s1) a = Inr (kernel_pool s) \<and> selfmap s1 \<and> pde_of s1 v = pde_of s v \<and>
           cr3 s1 = cr3 s \<and> s1 = s\<lparr>kernel_pool := kernel_pool s1, pmem := pmem s1\<rparr>"
proof -
  note ret' = ret [unfolded malloc_loop.simps [of PF_KERNEL v 1]]
  obtain r p where pa: "palloc (kernel_pool s) = Inr (r, p)"
    using ret' by (cases "palloc (kernel_pool s)") (auto simp: pool_of_def)
  obtain a where r: "r = Some a"
    using ret' pa by (cases r) (auto simp: pool_of_def)
  obtain i where i: "i < 8 * btmp_bytes_len (pool_bitmap (kernel_pool s))"
      "unat a = unat (phy_addr_start (kernel_pool s)) + i * PG_SIZE"
      "pool_free_bit p a = Inr (kernel_pool s)" "p = kernel_pool s\<lparr>pool_bitmap := pool_bitmap p\<rparr>"
    using palloc_Some [OF pw] pa r by blast
  have aal: "a AND 0xfff = 0"
  proof -
    have "unat (phy_addr_start (kernel_pool s)) mod 4096 = 0" using al by (simp add: aligned_iff)
    with i(2) show ?thesis by (simp add: aligned_iff)
  qed
  let ?s' = "s\<lparr>kernel_pool := p\<rparr>"
  have sm': "selfmap ?s'" using sm by (simp add: selfmap_def)
  have pres': "pde_of ?s' v AND 1 \<noteq> 0" and apart': "pde_of ?s' v AND 0xfffff000 \<noteq> cr3 ?s'"
    using pres apart by (simp_all add: pde_of_def)
  have clear': "pmem ?s' (pte_addr ?s' v) AND 1 = 0"
    using unm mmu_translate_entries [OF pres] by (auto simp: pte_addr_def pde_of_def split: if_splits)
  obtain s2 where add: "page_table_add v a ?s' = Inr s2" and sm2: "selfmap s2"
    and m2: "mmu_translate s2 v = Some (a + (v AND 0xfff))" and pde2: "pde_of s2 v = pde_of ?s' v"
    and c2: "cr3 s2 = cr3 ?s'" and s2: "s2 = ?s'\<lparr>pmem := pmem s2\<rparr>"
    using add_present_maps [OF sm' pres' clear' apart' aal] by blast
  have "s1 = s2" using ret' pa r add by (simp add: malloc_loop.simps [of PF_KERNEL _ 0] pool_of_def set_pool_def)
  moreover have "kernel_pool s2 = p" using s2 by (metis mem_state.select_convs(1) mem_state.surjective mem_state.update_convs(1) mem_state.update_convs(7))
  ultimately show ?thesis using i m2 val aal sm2 pde2 c2 s2 by (auto simp: pde_of_def)
qed


lemma pool_free_bit_start: "pool_free_bit p a = Inr q \<Longrightarrow> phy_addr_start q = phy_addr_start p"
  by (auto simp: pool_free_bit_def Let_def split: sum.splits)

lemma addr_v2p_Some: "selfmap s \<Longrightarrow> mmu_translate s v = Some a \<Longrightarrow> addr_v2p v s = Inr a"
  using mmu_translate_Some [of s v a] vread_pte_ptr [of s v] by (auto simp: addr_v2p_def)

lemma mfree_kernel_one:
  assumes sm: "selfmap s" and m: "mmu_translate s v = Some a" and val: "v AND 0xfff = 0"
    and apart: "pde_of s v AND 0xfffff000 \<noteq> cr3 s" and aal: "a AND 0xfff = 0"
    and lo: "0x102000 \<le> a" "phy_addr_start (kernel_pool s) \<le> a" and hi: "a < phy_addr_start (user_pool s)"
    and fb: "pool_free_bit (kernel_pool s) a = Inr kp" and vc: "vaddr_clear (kernel_vaddr s) v 1 = Inr kv"
  shows "\<exists>s2. mfree_page PF_KERNEL v 1 s = Inr s2 \<and> mmu_translate s2 v = None \<and>
             s2 = s\<lparr>kernel_pool := kp, kernel_vaddr := kv, pmem := pmem s2\<rparr>"
proof -
  have v2p: "addr_v2p v s = Inr a" by (rule addr_v2p_Some [OF sm m])
  have pres: "pde_of s v AND 1 \<noteq> 0" using mmu_translate_Some [OF m] by simp
  have nu: "\<not> phy_addr_start (user_pool s) \<le> a" using hi by simp
  have pf: "pfree a s = Inr (s\<lparr>kernel_pool := kp\<rparr>)" using nu fb by (simp add: pfree_def)
  let ?s1 = "s\<lparr>kernel_pool := kp\<rparr>"
  have sm1: "selfmap ?s1" and pres1: "pde_of ?s1 v AND 1 \<noteq> 0" and apart1: "pde_of ?s1 v AND 0xfffff000 \<noteq> cr3 ?s1"
    using sm pres apart by (simp_all add: selfmap_def pde_of_def)
  obtain s2 where rm: "page_table_pte_remove v ?s1 = Inr s2" and un2: "mmu_translate s2 v = None"
    and s2: "s2 = ?s1\<lparr>pmem := pmem s2\<rparr>"
    using pte_remove_unmaps [OF sm1 pres1 apart1] by blast
  have loop: "mfree_loop False v 0 1 s = Inr s2"
    using v2p aal lo hi pf rm by (simp add: mfree_loop.simps [of False v 0] mfree_loop.simps [of False _ "Suc 0"]
                                          aligned_mod)
  have kv2: "kernel_vaddr s2 = kernel_vaddr s" using s2 by (metis mem_state.select_convs(3) mem_state.surjective mem_state.update_convs(1) mem_state.update_convs(7))
  let ?s3 = "s2\<lparr>kernel_vaddr := kv\<rparr>"
  have "mfree_page PF_KERNEL v 1 s = Inr ?s3"
    using val v2p aal lo nu loop vc kv2 by (simp add: mfree_page_def aligned_mod vaddr_remove_def)
  moreover have "mmu_translate ?s3 v = None" using un2 mmu_translate_cong [of ?s3 s2] by simp
  moreover have "?s3 = s\<lparr>kernel_pool := kp, kernel_vaddr := kv, pmem := pmem ?s3\<rparr>"
    using s2 by (metis mem_state.surjective mem_state.update_convs(1,3,7) mem_state.select_convs(7))
  ultimately show ?thesis by blast
qed


subsection \<open>Properties of the page allocator\<close>

text \<open>
  C19: on a coherent kernel heap, a kernel page obtained with \<open>malloc_page(PF_KERNEL, 1)\<close>
  is mapped to a frame of the kernel pool, and \<open>mfree_page\<close> of it succeeds, unmaps it and
  gives back both the frame and the virtual page: the kernel pool, the kernel virtual pool
  and the user pool are as before the allocation.
\<close>

theorem kernel_page_alloc_free:
  assumes ok: "kheap_ok s" and m: "malloc_page PF_KERNEL 1 s = Inr (Some v, s1)"
  shows "\<exists>a s2. mmu_translate s1 v = Some a \<and>
           phy_addr_start (kernel_pool s) \<le> a \<and> a < phy_addr_start (user_pool s) \<and>
           mfree_page PF_KERNEL v 1 s1 = Inr s2 \<and> mmu_translate s2 v = None \<and>
           kernel_pool s2 = kernel_pool s \<and> kernel_vaddr s2 = kernel_vaddr s \<and> user_pool s2 = user_pool s"
proof -
  have sm: "selfmap s" and pw: "pools_wf s" and vw: "vpool_wf (kernel_vaddr s)"
    and kal: "phy_addr_start (kernel_pool s) AND 0xfff = 0" and k102: "0x102000 \<le> phy_addr_start (kernel_pool s)"
    and val0: "vaddr_start (kernel_vaddr s) AND 0xfff = 0"
    and pages: "list_all (\<lambda>i. let v = vaddr_start (kernel_vaddr s) + word_of_nat (i * PG_SIZE) in
                    pde_of s v AND 1 \<noteq> 0 \<and> pde_of s v AND 0xfffff000 \<noteq> cr3 s \<and>
                    (if bitmap_scan_test (vaddr_bitmap (kernel_vaddr s)) i then True
                     else mmu_translate s v = None))
                  [0..<8 * btmp_bytes_len (vaddr_bitmap (kernel_vaddr s))]"
    using ok by (simp_all add: kheap_ok_def)
  obtain s0 where vg: "vaddr_get PF_KERNEL 1 s = Inr (Some v, s0)" and ml: "malloc_loop PF_KERNEL v 1 s0 = Inr (True, s1)"
    using m by (auto simp: malloc_page_def split: sum.splits option.splits bool.splits)
  obtain i where i: "i < 8 * btmp_bytes_len (vaddr_bitmap (kernel_vaddr s))"
      "\<not> bitmap_scan_test (vaddr_bitmap (kernel_vaddr s)) i"
    and v: "v = vaddr_start (kernel_vaddr s) + word_of_nat (i * PG_SIZE)"
    and s0: "s0 = s\<lparr>kernel_vaddr := kernel_vaddr s0\<rparr>" and vc: "vaddr_clear (kernel_vaddr s0) v 1 = Inr (kernel_vaddr s)"
    using vaddr_get_kernel_one [OF vw vg] by blast
  have pg: "pde_of s v AND 1 \<noteq> 0" "pde_of s v AND 0xfffff000 \<noteq> cr3 s" "mmu_translate s v = None"
    using pages i by (auto simp: list_all_iff Let_def v)
  have e0: "kernel_pool s0 = kernel_pool s" "user_pool s0 = user_pool s" "pmem s0 = pmem s" "cr3 s0 = cr3 s"
    using arg_cong [OF s0, of kernel_pool] arg_cong [OF s0, of user_pool] arg_cong [OF s0, of pmem]
      arg_cong [OF s0, of cr3] by simp_all
  have sm0: "selfmap s0" using sm e0 by (simp add: selfmap_def)
  have pg0: "pde_of s0 v AND 1 \<noteq> 0" "pde_of s0 v AND 0xfffff000 \<noteq> cr3 s0" "mmu_translate s0 v = None"
    using pg e0 mmu_translate_cong [of s0 s] by (simp_all add: pde_of_def)
  have val: "v AND 0xfff = 0" using aligned_add_page [OF val0, of i] v by simp
  have pw0: "pool_wf (kernel_pool s0)" and kal0: "phy_addr_start (kernel_pool s0) AND 0xfff = 0"
    using pw kal e0 by (simp_all add: pools_wf_def)
  obtain a j where m1: "mmu_translate s1 v = Some a"
      and ua: "unat a = unat (phy_addr_start (kernel_pool s)) + j * PG_SIZE"
      and j: "j < 8 * btmp_bytes_len (pool_bitmap (kernel_pool s))" and aal: "a AND 0xfff = 0"
      and fb: "pool_free_bit (kernel_pool s1) a = Inr (kernel_pool s)" and sm1: "selfmap s1"
      and pde1: "pde_of s1 v = pde_of s0 v" and c1: "cr3 s1 = cr3 s0"
      and s1: "s1 = s0\<lparr>kernel_pool := kernel_pool s1, pmem := pmem s1\<rparr>"
    using malloc_loop_one_present [OF sm0 pw0 kal0 pg0(1) pg0(2) pg0(3) val ml] e0 by auto
  have e1: "user_pool s1 = user_pool s" "kernel_vaddr s1 = kernel_vaddr s0"
    using arg_cong [OF s1, of user_pool] arg_cong [OF s1, of kernel_vaddr] e0 by simp_all
  have sep: "unat (phy_addr_start (kernel_pool s)) + 8 * btmp_bytes_len (pool_bitmap (kernel_pool s)) * PG_SIZE
               \<le> unat (phy_addr_start (user_pool s))"
    using pw by (simp add: pools_wf_def)
  have lo: "phy_addr_start (kernel_pool s) \<le> a" using ua by (simp add: word_le_nat_alt)
  have hi: "a < phy_addr_start (user_pool s)"
    using ua sep mult_page_less [OF j] by (simp add: word_less_nat_alt)
  have l102: "0x102000 \<le> a" using k102 lo by simp
  have apart1: "pde_of s1 v AND 0xfffff000 \<noteq> cr3 s1" using pg0(2) pde1 c1 by simp
  have lo1: "phy_addr_start (kernel_pool s1) \<le> a" using lo pool_free_bit_start [OF fb] by simp
  have hi1: "a < phy_addr_start (user_pool s1)" using hi e1 by simp
  have vc1: "vaddr_clear (kernel_vaddr s1) v 1 = Inr (kernel_vaddr s)" using vc e1 by simp
  obtain s2 where fr: "mfree_page PF_KERNEL v 1 s1 = Inr s2" and un2: "mmu_translate s2 v = None"
    and s2: "s2 = s1\<lparr>kernel_pool := kernel_pool s, kernel_vaddr := kernel_vaddr s, pmem := pmem s2\<rparr>"
    using mfree_kernel_one [OF sm1 m1 val apart1 aal l102 lo1 hi1 fb vc1] by blast
  have "kernel_pool s2 = kernel_pool s" "kernel_vaddr s2 = kernel_vaddr s" "user_pool s2 = user_pool s"
    using arg_cong [OF s2, of kernel_pool] arg_cong [OF s2, of kernel_vaddr] arg_cong [OF s2, of user_pool] e1
    by simp_all
  with m1 lo hi fr un2 show ?thesis by blast
qed


theorem kernel_page_alloc_free_witness:
  "kheap_ok ex_kheap \<and>
   (\<exists>s1. malloc_page PF_KERNEL 1 ex_kheap = Inr (Some 0xc0101000, s1) \<and>
     (\<exists>a s2. mmu_translate s1 0xc0101000 = Some a \<and> mfree_page PF_KERNEL 0xc0101000 1 s1 = Inr s2 \<and>
        kernel_pool s2 = kernel_pool ex_kheap \<and> kernel_vaddr s2 = kernel_vaddr ex_kheap))"
proof -
  have ok: "kheap_ok ex_kheap"
    by (simp add: kheap_ok_def ex_kheap_def ex_pg_def ex_mem_def ex_kpool_def ex_upool_def ex_vpool_def
        selfmap_def pools_wf_def pool_wf_def vpool_wf_def bitmap_wf_def pde_of_def mmu_translate_def
        PDE_IDX_def PTE_IDX_def bitmap_scan_test_def upt_rec)
  obtain s1 where m: "malloc_page PF_KERNEL 1 ex_kheap = Inr (Some 0xc0101000, s1)"
    by (simp add: malloc_page_def vaddr_get_def vaddr_scan_set_def ex_kheap_def ex_pg_def ex_mem_def
        ex_vpool_def ex_kpool_def bitmap_scan_def skip_full_bytes.simps first_zero_bit.simps
        bitmap_set_loop.simps bitmap_set_def malloc_loop.simps pool_of_def set_pool_def palloc_def
        page_table_add_def vread_def vwrite_def mmu_translate_def pde_ptr_def pte_ptr_def
        PDE_IDX_def PTE_IDX_def)
  from kernel_page_alloc_free [OF ok m] ok m show ?thesis by blast
qed


lemma vmemset_pages_keeps_zero:
  "vmemset_pages s v n = Inr s' \<Longrightarrow> pmem s x = 0 \<Longrightarrow> pmem s' x = 0"
proof (induction s v n rule: vmemset_pages.induct)
  case (1 s v cnt)
  show ?case
  proof (cases "cnt = 0")
    case True
    then show ?thesis using "1.prems" vmemset_pages.simps [of s v cnt] by simp
  next
    case False
    then obtain s1 where p: "vmemset_page s v = Inr s1" "vmemset_pages s1 (v + 0x1000) (cnt - 1) = Inr s'"
      using "1.prems"(1) by (auto simp: vmemset_pages.simps [of s v cnt] split: sum.splits)
    have "pmem s1 x = 0" using p(1) "1.prems"(2) by (auto simp: vmemset_page_def split: option.splits)
    then show ?thesis using "1.IH" [OF False p(1) p(2)] by simp
  qed
qed

lemma vmemset_pages_first:
  assumes "0 < n" "mmu_translate s v = Some a" "vmemset_pages s v n = Inr s'"
  shows "\<forall>x. x AND 0xfffff000 = a AND 0xfffff000 \<longrightarrow> pmem s' x = 0"
proof -
  define s1 where "s1 = s\<lparr>pmem := \<lambda>x. if x AND 0xfffff000 = a AND 0xfffff000 then 0 else pmem s x\<rparr>"
  have "vmemset_pages s1 (v + 0x1000) (n - 1) = Inr s'"
    using assms by (simp add: vmemset_pages.simps [of s v n] vmemset_page_def s1_def)
  then show ?thesis using vmemset_pages_keeps_zero by (auto simp: s1_def)
qed

text \<open>
  C20: when \<open>malloc_page\<close> fails, \<open>get_user_pages\<close> still runs
  \<open>memset(vaddr, 0, pg_cnt * PG_SIZE)\<close> with \<open>vaddr = NULL\<close>: it either stops on a page
  fault or returns \<open>NULL\<close> after clearing the whole physical frame mapped at virtual
  address 0 (on the example machine, low memory holding \<open>0xdeadbeef\<close>).
\<close>

theorem get_user_pages_clears_null:
  assumes fail: "malloc_page PF_USER pg_cnt s = Inr (None, s1)" and cnt: "0 < pg_cnt"
    and map0: "mmu_translate s1 0 = Some a"
  shows "(\<exists>e. get_user_pages pg_cnt s = Inl e) \<or>
         (\<exists>s2. get_user_pages pg_cnt s = Inr (None, s2) \<and>
               (\<forall>x. x AND 0xfffff000 = a AND 0xfffff000 \<longrightarrow> pmem s2 x = 0))"
proof (cases "vmemset_pages s1 0 pg_cnt")
  case (Inl e)
  then show ?thesis using fail by (simp add: get_user_pages_def)
next
  case (Inr s2)
  then show ?thesis using fail vmemset_pages_first [OF cnt map0 Inr] by (simp add: get_user_pages_def)
qed

theorem get_user_pages_clears_null_witness:
  "malloc_page PF_USER 2 ex_low = Inr (None, ex_low) \<and> mmu_translate ex_low 0 = Some 0 \<and>
   pmem ex_low 0x10 = 0xdeadbeef \<and>
   ((\<exists>e. get_user_pages 2 ex_low = Inl e) \<or>
    (\<exists>s2. get_user_pages 2 ex_low = Inr (None, s2) \<and>
          (\<forall>x. x AND 0xfffff000 = 0 AND 0xfffff000 \<longrightarrow> pmem s2 x = 0)))"
proof -
  have f: "malloc_page PF_USER 2 ex_low = Inr (None, ex_low)"
    by (simp add: malloc_page_def vaddr_get_def vaddr_scan_set_def ex_low_def ex_kheap_def
      ex_pg_def ex_mem_def bitmap_scan_def skip_full_bytes.simps first_zero_bit.simps scan_run.simps
      bitmap_scan_test_def)
  have m: "mmu_translate ex_low 0 = Some 0"
    by (simp add: ex_low_def ex_kheap_def ex_pg_def ex_mem_def mmu_translate_def PDE_IDX_def PTE_IDX_def)
  have d: "pmem ex_low 0x10 = 0xdeadbeef" by (simp add: ex_low_def)
  show ?thesis using get_user_pages_clears_null [OF f _ m] f m d by simp
qed

text \<open>
  C21: \<open>get_a_page\<close> asserts \<open>bit_idx > 0\<close>, so the first page of a virtual pool can never
  be installed with it: a kernel thread asking for \<open>K_HEAP_START\<close> itself stops the machine.
\<close>

theorem get_a_page_first_page:
  "cur_pgdir s = None \<Longrightarrow>
   get_a_page PF_KERNEL (vaddr_start (kernel_vaddr s)) s = Inl (ASSERT_failed ''bit_idx > 0'')"
  by (simp add: get_a_page_def)

theorem get_a_page_first_page_witness:
  "cur_pgdir ex_kheap = None \<and>
   get_a_page PF_KERNEL 0xc0100000 ex_kheap = Inl (ASSERT_failed ''bit_idx > 0'')"
proof -
  have n: "cur_pgdir ex_kheap = None" by (simp add: ex_kheap_def ex_pg_def ex_mem_def)
  have "vaddr_start (kernel_vaddr ex_kheap) = 0xc0100000" by (simp add: ex_kheap_def ex_pg_def ex_mem_def ex_vpool_def)
  then show ?thesis using get_a_page_first_page [OF n] n by simp
qed

end
