(* ===== verification/Heap.thy ===== *)
theory Heap
  imports Alloc Sched
begin

text \<open>
  The kernel heap of \<open>src/kernel/memory.c\<close>: \<open>block_desc_init\<close>, \<open>arena2block\<close>,
  \<open>block2arena\<close>, \<open>sys_malloc\<close> and \<open>sys_free\<close>. Small requests (up to 1024 bytes) are
  served from seven size classes (16 to 1024 bytes); a class's free blocks are carved from
  one-page arenas whose header (\<open>struct arena\<close>: descriptor, count, large flag; 12 bytes)
  sits at the start of the page. Larger requests take whole pages with a large arena header.

  The heap's metadata is kept beside the memory state: the kernel's descriptor array
  \<open>k_block_descs\<close>, the running task's \<open>u_block_desc\<close>, and the arena headers indexed by
  the page address. A descriptor's intrusive \<open>free_list\<close> is the list of its free blocks'
  addresses (the list library is modelled from the specification, as in the scheduler), and
  \<open>a->desc\<close> names the array and index of the descriptor. Pages come from
  \<open>malloc_page\<close>, are cleared with \<open>vmemset_pages\<close> and returned with
  \<open>mfree_page\<close> (Alloc). \<open>memset(b, 0, block_size)\<close> on a block is written word by
  word through the MMU: blocks are 4-byte aligned and their sizes multiples of 4. The pool
  locks and the interrupt-off section around the arena fill make each call one atomic step.
\<close>

section \<open>Heap metadata\<close>

record mem_block_desc =
  block_size :: u32
  blocks_per_arena :: u32
  free_list :: "u32 list"

datatype desc_ref = KDESC nat | UDESC nat

record arena =
  desc :: "desc_ref option"
  cnt :: u32
  large :: bool

record heap =
  k_block_descs :: "mem_block_desc list"
  u_block_desc :: "mem_block_desc list"
  arenas :: "u32 \<Rightarrow> arena"

abbreviation DESC_CNT :: nat where "DESC_CNT \<equiv> 7"

text \<open>\<open>list_remove\<close> of \<open>lib/kernel/list.c\<close> (not under \<open>src/\<close>): unlinks the element.\<close>

definition list_remove :: "u32 list \<Rightarrow> u32 \<Rightarrow> u32 list" where
  "list_remove l e = remove1 e l"

fun get_desc :: "heap \<Rightarrow> desc_ref \<Rightarrow> mem_block_desc" where
  "get_desc h (KDESC i) = k_block_descs h ! i"
| "get_desc h (UDESC i) = u_block_desc h ! i"

fun put_desc :: "heap \<Rightarrow> desc_ref \<Rightarrow> mem_block_desc \<Rightarrow> heap" where
  "put_desc h (KDESC i) d = h\<lparr>k_block_descs := (k_block_descs h)[i := d]\<rparr>"
| "put_desc h (UDESC i) d = h\<lparr>u_block_desc := (u_block_desc h)[i := d]\<rparr>"

text \<open>\<open>block_desc_init\<close>: the loop over the seven descriptors with the \<open>uint16_t\<close>
  block size doubling from 16.\<close>

function block_desc_loop :: "nat \<Rightarrow> u16 \<Rightarrow> mem_block_desc list" where
  "block_desc_loop n bs =
     (if n = 0 then []
      else \<lparr>block_size = ucast bs, blocks_per_arena = (4096 - 12) div ucast bs, free_list = []\<rparr> #
           block_desc_loop (n - 1) (bs * 2))"
  by pat_completeness auto
termination by (relation "measure (\<lambda>(n, bs). n)") auto

definition block_desc_init :: "mem_block_desc list" where
  "block_desc_init = block_desc_loop DESC_CNT 16"

definition arena2block :: "u32 \<Rightarrow> u32 \<Rightarrow> u32 \<Rightarrow> u32" where
  "arena2block a blk_size idx = a + 12 + idx * blk_size"

definition block2arena :: "u32 \<Rightarrow> u32" where
  "block2arena b = b AND 0xfffff000"

text \<open>\<open>memset(v, 0, 4 * n)\<close> on a 4-byte aligned \<open>v\<close>, word by word.\<close>

function vzero_words :: "mem_state \<Rightarrow> u32 \<Rightarrow> nat \<Rightarrow> fatal + mem_state" where
  "vzero_words s v n = (if n = 0 then Inr s else (case vwrite s v 0 of Inl e \<Rightarrow> Inl e | Inr s1 \<Rightarrow> vzero_words s1 (v + 4) (n - 1)))"
  by pat_completeness auto
termination by (relation "measure (\<lambda>(s, v, n). n)") auto

text \<open>The loop of \<open>sys_malloc\<close> choosing the smallest class that fits.\<close>

function desc_index :: "u32 \<Rightarrow> mem_block_desc list \<Rightarrow> nat \<Rightarrow> nat" where
  "desc_index sz descs i = (if i < DESC_CNT then (if sz \<le> block_size (descs ! i) then i else desc_index sz descs (i + 1)) else i)"
  by pat_completeness auto
termination by (relation "measure (\<lambda>(sz, descs, i). DESC_CNT - i)") auto

text \<open>The loop filling a new arena: every block is appended to the class's free list.\<close>

function arena_fill :: "u32 \<Rightarrow> desc_ref \<Rightarrow> u32 \<Rightarrow> u32 \<Rightarrow> u32 \<Rightarrow> heap \<Rightarrow> fatal + heap" where
  "arena_fill a r blk_size bpa block_idx h =
     (if block_idx < bpa then
        (let b = arena2block a blk_size block_idx; d = get_desc h r in
         if elem_find (free_list d) b then Inl (ASSERT_failed ''!elem_find(&a->desc->free_list, &b->free_elem)'')
         else arena_fill a r blk_size bpa (block_idx + 1) (put_desc h r (d\<lparr>free_list := list_append (free_list d) b\<rparr>)))
      else Inr h)"
  by pat_completeness auto
termination
  by (relation "measure (\<lambda>(a, r, blk_size, bpa, block_idx, h). unat bpa - unat block_idx)")
     (auto intro: u32_incr_measure)

text \<open>The loop of \<open>sys_free\<close> unlinking every block of an arena that became free.\<close>

function arena_release :: "u32 \<Rightarrow> desc_ref \<Rightarrow> u32 \<Rightarrow> u32 \<Rightarrow> u32 \<Rightarrow> heap \<Rightarrow> fatal + heap" where
  "arena_release a r blk_size bpa block_idx h =
     (if block_idx < bpa then
        (let b = arena2block a blk_size block_idx; d = get_desc h r in
         if \<not> elem_find (free_list d) b then Inl (ASSERT_failed ''elem_find(&a->desc->free_list, &b->free_elem)'')
         else arena_release a r blk_size bpa (block_idx + 1) (put_desc h r (d\<lparr>free_list := list_remove (free_list d) b\<rparr>)))
      else Inr h)"
  by pat_completeness auto
termination
  by (relation "measure (\<lambda>(a, r, blk_size, bpa, block_idx, h). unat bpa - unat block_idx)")
     (auto intro: u32_incr_measure)

section \<open>\<open>sys_malloc\<close> and \<open>sys_free\<close>\<close>

text \<open>The running task's pool and descriptor array: kernel threads have no page directory.\<close>

definition heap_pf :: "mem_state \<Rightarrow> pool_flags" where
  "heap_pf m = (if cur_pgdir m = None then PF_KERNEL else PF_USER)"

definition desc_at :: "pool_flags \<Rightarrow> nat \<Rightarrow> desc_ref" where
  "desc_at pf i = (if pf = PF_KERNEL then KDESC i else UDESC i)"

definition descs_of :: "pool_flags \<Rightarrow> heap \<Rightarrow> mem_block_desc list" where
  "descs_of pf h = (if pf = PF_KERNEL then k_block_descs h else u_block_desc h)"

text \<open>A new arena for an empty class: one cleared page with its header, every block free.
  \<open>False\<close>: \<open>malloc_page\<close> failed and \<open>sys_malloc\<close> returns \<open>NULL\<close>.\<close>

definition new_arena :: "pool_flags \<Rightarrow> desc_ref \<Rightarrow> mem_state \<Rightarrow> heap \<Rightarrow> fatal + (bool \<times> mem_state \<times> heap)" where
  "new_arena pf r m h =
     (case malloc_page pf 1 m of
        Inl e \<Rightarrow> Inl e
      | Inr (None, m1) \<Rightarrow> Inr (False, m1, h)
      | Inr (Some a, m1) \<Rightarrow>
          (case vmemset_pages m1 a 1 of
             Inl e \<Rightarrow> Inl e
           | Inr m2 \<Rightarrow>
               let d = get_desc h r;
                   h1 = h\<lparr>arenas := (arenas h)(a := \<lparr>desc = Some r, cnt = blocks_per_arena d, large = False\<rparr>)\<rparr> in
               (case arena_fill a r (block_size d) (blocks_per_arena d) 0 h1 of
                  Inl e \<Rightarrow> Inl e
                | Inr h2 \<Rightarrow> Inr (True, m2, h2))))"

text \<open>\<open>sys_malloc\<close>; the address 0 is \<open>NULL\<close>. \<open>DIV_ROUND_UP\<close> (\<open>global.h\<close>) is
  \<open>(x + step - 1) / step\<close>.\<close>

definition sys_malloc :: "u32 \<Rightarrow> mem_state \<Rightarrow> heap \<Rightarrow> fatal + (u32 \<times> mem_state \<times> heap)" where
  "sys_malloc sz m h =
     (let pf = heap_pf m; descs = descs_of pf h in
      if \<not> (0 < sz \<and> sz < pool_size (pool_of pf m)) then Inr (0, m, h)
      else if 1024 < sz then
        (let page_cnt = (sz + 12 + 4096 - 1) div 4096 in
         case malloc_page pf (unat page_cnt) m of
           Inl e \<Rightarrow> Inl e
         | Inr (None, m1) \<Rightarrow> Inr (0, m1, h)
         | Inr (Some a, m1) \<Rightarrow>
             (case vmemset_pages m1 a (unat page_cnt) of
                Inl e \<Rightarrow> Inl e
              | Inr m2 \<Rightarrow> Inr (a + 12, m2, h\<lparr>arenas := (arenas h)(a := \<lparr>desc = None, cnt = page_cnt, large = True\<rparr>)\<rparr>)))
      else
        (let r = desc_at pf (desc_index sz descs 0) in
         case (if list_empty (free_list (get_desc h r)) then new_arena pf r m h else Inr (True, m, h)) of
           Inl e \<Rightarrow> Inl e
         | Inr (False, m1, h1) \<Rightarrow> Inr (0, m1, h1)
         | Inr (True, m1, h1) \<Rightarrow>
             (let d = get_desc h1 r; b = hd (free_list d);
                  h2 = put_desc h1 r (d\<lparr>free_list := tl (free_list d)\<rparr>) in
              case vzero_words m1 b (unat (block_size d) div 4) of
                Inl e \<Rightarrow> Inl e
              | Inr m2 \<Rightarrow>
                  (let a = block2arena b in
                   Inr (b, m2, h2\<lparr>arenas := (arenas h2)(a := (arenas h2 a)\<lparr>cnt := cnt (arenas h2 a) - 1\<rparr>)\<rparr>)))))"

text \<open>
  \<open>sys_free\<close>. \<open>ASSERT(a->large == 0 || a->large == 1)\<close> always holds for a \<open>bool\<close>
  field and has no branch here. An arena header with no descriptor and \<open>large\<close> false
  makes the code append to the list of a \<open>NULL\<close> descriptor; the model stops there with a
  fault at address 0.
\<close>

definition sys_free :: "u32 \<Rightarrow> mem_state \<Rightarrow> heap \<Rightarrow> fatal + (mem_state \<times> heap)" where
  "sys_free ptr m h =
     (if ptr = 0 then Inl (ASSERT_failed ''ptr != NULL'')
      else if cur_pgdir m = None \<and> \<not> 0xc0100000 < ptr then Inl (ASSERT_failed ''(uint32_t)ptr > K_HEAP_START'')
      else
        (let pf = heap_pf m; a = block2arena ptr; ar = arenas h a in
         if desc ar = None \<and> large ar then
           (case mfree_page pf a (unat (cnt ar)) m of Inl e \<Rightarrow> Inl e | Inr m1 \<Rightarrow> Inr (m1, h))
         else
           (case desc ar of
              None \<Rightarrow> Inl (Page_fault 0)
            | Some r \<Rightarrow>
                (let d = get_desc h r;
                     h1 = put_desc h r (d\<lparr>free_list := list_append (free_list d) ptr\<rparr>);
                     c = cnt ar + 1;
                     h2 = h1\<lparr>arenas := (arenas h1)(a := ar\<lparr>cnt := c\<rparr>)\<rparr> in
                 if c = blocks_per_arena d then
                   (case arena_release a r (block_size d) (blocks_per_arena d) 0 h2 of
                      Inl e \<Rightarrow> Inl e
                    | Inr h3 \<Rightarrow> (case mfree_page pf a 1 m of Inl e \<Rightarrow> Inl e | Inr m1 \<Rightarrow> Inr (m1, h3)))
                 else Inr (m, h2)))))"

text \<open>
  Examples: the kernel heap of \<open>ex_kheap\<close> (Alloc) whose first page \<open>0xc0100000\<close> is a
  16-byte arena with two free blocks left, and a machine whose kernel pool has 16 MiB.
\<close>

definition ex_heap :: heap where
  "ex_heap = \<lparr>k_block_descs = block_desc_init[0 := \<lparr>block_size = 16, blocks_per_arena = 255,
                                                       free_list = [0xc010000c, 0xc010001c]\<rparr>],
              u_block_desc = [],
              arenas = (\<lambda>_. \<lparr>desc = None, cnt = 0, large = False\<rparr>)
                         (0xc0100000 := \<lparr>desc = Some (KDESC 0), cnt = 2, large = False\<rparr>)\<rparr>"

definition ex_bigmem :: mem_state where
  "ex_bigmem = ex_mem\<lparr>kernel_pool := ex_kpool\<lparr>pool_size := 0x1000000\<rparr>\<rparr>"

declare block_desc_loop.simps [simp del] vzero_words.simps [simp del] desc_index.simps [simp del] arena_fill.simps [simp del] arena_release.simps [simp del]


section \<open>Lemmas\<close>

lemma block_desc_init_sizes:
  "map block_size block_desc_init = [16, 32, 64, 128, 256, 512, 1024]"
  "map blocks_per_arena block_desc_init = [255, 127, 63, 31, 15, 7, 3]"
  "map free_list block_desc_init = [[], [], [], [], [], [], []]"
  by (simp_all add: block_desc_init_def block_desc_loop.simps)

lemma desc_index_spec:
  assumes "i \<le> j" "j < DESC_CNT" "sz \<le> block_size (descs ! j)"
  shows "i \<le> desc_index sz descs i \<and> desc_index sz descs i < DESC_CNT \<and>
         sz \<le> block_size (descs ! desc_index sz descs i) \<and>
         (\<forall>k. i \<le> k \<and> k < desc_index sz descs i \<longrightarrow> block_size (descs ! k) < sz)"
  using assms
proof (induction sz descs i rule: desc_index.induct)
  case (1 sz descs i)
  show ?case
  proof (cases "sz \<le> block_size (descs ! i)")
    case True
    then show ?thesis using "1.prems" by (auto simp: desc_index.simps [of sz descs i])
  next
    case False
    then have "i \<noteq> j" using "1.prems" by auto
    then have "i + 1 \<le> j" "i < DESC_CNT" using "1.prems" by auto
    then have ih: "i + 1 \<le> desc_index sz descs (i + 1) \<and> desc_index sz descs (i + 1) < DESC_CNT \<and>
         sz \<le> block_size (descs ! desc_index sz descs (i + 1)) \<and>
         (\<forall>k. i + 1 \<le> k \<and> k < desc_index sz descs (i + 1) \<longrightarrow> block_size (descs ! k) < sz)"
      using "1.IH" "1.prems" False by blast
    have "desc_index sz descs i = desc_index sz descs (i + 1)"
      using False \<open>i < DESC_CNT\<close> by (simp add: desc_index.simps [of sz descs i])
    moreover have "\<forall>k. i \<le> k \<and> k < desc_index sz descs i \<longrightarrow> block_size (descs ! k) < sz"
    proof (intro allI impI)
      fix k
      assume k: "i \<le> k \<and> k < desc_index sz descs i"
      show "block_size (descs ! k) < sz"
      proof (cases "k = i")
        case True
        then show ?thesis using False by simp
      next
        case False
        then show ?thesis using k ih \<open>desc_index sz descs i = desc_index sz descs (i + 1)\<close> by auto
      qed
    qed
    ultimately show ?thesis using ih by simp
  qed
qed

lemma low12_self: "unat (x :: u32) < 4096 \<Longrightarrow> x AND 0xfff = x"
  by (metis unat_and_0xfff mod_less word_unat_eq_iff)

lemma block_in_arena:
  fixes idx bs :: u32
  assumes "0 < unat bs" "unat idx < 4084 div unat bs"
  shows "12 + (unat idx + 1) * unat bs \<le> 4096" and "unat (12 + idx * bs) = 12 + unat idx * unat bs"
proof -
  have "(unat idx + 1) * unat bs \<le> (4084 div unat bs) * unat bs"
    using assms(2) by (intro mult_le_mono1) simp
  also have "\<dots> \<le> 4084" by simp
  finally show b: "12 + (unat idx + 1) * unat bs \<le> 4096" by simp
  then have lt: "unat idx * unat bs < 4096" by (simp add: algebra_simps)
  then have "unat (idx * bs) = unat idx * unat bs" by (simp add: unat_word_ariths)
  then show "unat (12 + idx * bs) = 12 + unat idx * unat bs" using lt by (simp add: unat_word_ariths)
qed

lemma block_desc_init_eq:
  "block_desc_init =
     [\<lparr>block_size = 16, blocks_per_arena = 255, free_list = []\<rparr>,
      \<lparr>block_size = 32, blocks_per_arena = 127, free_list = []\<rparr>,
      \<lparr>block_size = 64, blocks_per_arena = 63, free_list = []\<rparr>,
      \<lparr>block_size = 128, blocks_per_arena = 31, free_list = []\<rparr>,
      \<lparr>block_size = 256, blocks_per_arena = 15, free_list = []\<rparr>,
      \<lparr>block_size = 512, blocks_per_arena = 7, free_list = []\<rparr>,
      \<lparr>block_size = 1024, blocks_per_arena = 3, free_list = []\<rparr>]"
  by (simp add: block_desc_init_def block_desc_loop.simps)

lemma vzero_words_pmem: "vzero_words s v n = Inr s' \<Longrightarrow> s' = s\<lparr>pmem := pmem s'\<rparr>"
proof (induction s v n arbitrary: s' rule: vzero_words.induct)
  case (1 s v n)
  show ?case
  proof (cases "n = 0")
    case True
    then show ?thesis using "1.prems" by (simp add: vzero_words.simps [of s v 0])
  next
    case False
    then obtain s1 where w: "vwrite s v 0 = Inr s1" and r: "vzero_words s1 (v + 4) (n - 1) = Inr s'"
      using "1.prems" by (auto simp: vzero_words.simps [of s v n] split: sum.splits)
    have "s1 = s\<lparr>pmem := pmem s1\<rparr>" using w by (auto simp: vwrite_def split: option.splits)
    then show ?thesis using "1.IH" [OF False w r] by (metis mem_state.surjective mem_state.update_convs(7))
  qed
qed

lemma desc_index_kernel:
  assumes "map block_size descs = map block_size block_desc_init" "sz \<le> 1024"
  shows "desc_index sz descs 0 < length descs \<and> sz \<le> block_size (descs ! desc_index sz descs 0) \<and>
         (\<forall>k < desc_index sz descs 0. block_size (descs ! k) < sz)"
proof -
  have len: "length descs = 7" using arg_cong [OF assms(1), of length] by (simp add: block_desc_init_eq)
  have "block_size (descs ! 6) = 1024"
    using arg_cong [OF assms(1), of "\<lambda>l. l ! 6"] len by (simp add: block_desc_init_eq)
  then show ?thesis using desc_index_spec [of 0 6 sz descs] assms(2) len by auto
qed

lemma sys_malloc_small_kernel:
  assumes k: "cur_pgdir m = None" and sz: "0 < sz" "sz \<le> 1024" "sz < pool_size (kernel_pool m)"
    and i: "i = desc_index sz (k_block_descs h) 0"
    and fl: "free_list (k_block_descs h ! i) = b # bs"
    and z: "vzero_words m b (unat (block_size (k_block_descs h ! i)) div 4) = Inr m'"
  shows "sys_malloc sz m h =
           Inr (b, m', h\<lparr>k_block_descs := (k_block_descs h)[i := (k_block_descs h ! i)\<lparr>free_list := bs\<rparr>],
                         arenas := (arenas h)(block2arena b := (arenas h (block2arena b))\<lparr>cnt := cnt (arenas h (block2arena b)) - 1\<rparr>)\<rparr>)"
proof -
  have "\<not> 1024 < sz" using sz(2) by simp
  then show ?thesis using k sz fl z
    by (simp add: sys_malloc_def heap_pf_def descs_of_def pool_of_def desc_at_def list_empty_def Let_def flip: i)
qed

lemma sys_free_small_kernel:
  assumes k: "cur_pgdir m = None" and p: "0xc0100000 < ptr"
    and ar: "arenas h (block2arena ptr) = \<lparr>desc = Some (KDESC i), cnt = c, large = False\<rparr>"
    and c: "c + 1 \<noteq> blocks_per_arena (k_block_descs h ! i)"
  shows "sys_free ptr m h =
           Inr (m, h\<lparr>k_block_descs := (k_block_descs h)[i := (k_block_descs h ! i)\<lparr>free_list := list_append (free_list (k_block_descs h ! i)) ptr\<rparr>],
                    arenas := (arenas h)(block2arena ptr := \<lparr>desc = Some (KDESC i), cnt = c + 1, large = False\<rparr>)\<rparr>)"
proof -
  have "ptr \<noteq> 0" using p by auto
  then show ?thesis using k p ar c by (simp add: sys_free_def heap_pf_def Let_def)
qed

lemma unat_page_cnt:
  assumes "unat (sz :: u32) < 4294963189"
  shows "unat ((4107 + sz) div 4096) = (unat sz + 4107) div 4096"
proof -
  have "unat (4107 + sz) = 4107 + unat sz" using assms by (simp add: unat_word_ariths)
  then show ?thesis by (simp add: unat_div)
qed

text \<open>C31: a small kernel request \<open>sys_malloc(sz)\<close>, \<open>0 < sz \<le> 1024\<close>, uses the smallest
  size class whose block size is at least \<open>sz\<close>, returns the head block of its free list
  zeroed; \<open>sys_free\<close> of that block brings its arena's free-block count back and leaves the
  heap as it was, the block moved from the head to the tail of the class's free list.\<close>

theorem sys_malloc_free_roundtrip:
  assumes k: "cur_pgdir m = None" and sz: "0 < sz" "sz \<le> 1024" "sz < pool_size (kernel_pool m)"
    and std: "map block_size (k_block_descs h) = map block_size block_desc_init"
    and i: "i = desc_index sz (k_block_descs h) 0"
    and fl: "free_list (k_block_descs h ! i) = b # bs"
    and ar: "arenas h (block2arena b) = \<lparr>desc = Some (KDESC i), cnt = c, large = False\<rparr>"
    and c: "c \<noteq> blocks_per_arena (k_block_descs h ! i)"
    and p: "0xc0100000 < b"
    and z: "vzero_words m b (unat (block_size (k_block_descs h ! i)) div 4) = Inr m'"
  shows "sz \<le> block_size (k_block_descs h ! i) \<and> (\<forall>j < i. block_size (k_block_descs h ! j) < sz) \<and>
         (\<exists>h1. sys_malloc sz m h = Inr (b, m', h1) \<and>
               sys_free b m' h1 = Inr (m', h\<lparr>k_block_descs := (k_block_descs h)[i := (k_block_descs h ! i)\<lparr>free_list := bs @ [b]\<rparr>]\<rparr>))"
proof -
  have di: "i < length (k_block_descs h) \<and> sz \<le> block_size (k_block_descs h ! i) \<and>
            (\<forall>j < i. block_size (k_block_descs h ! j) < sz)"
    using desc_index_kernel [OF std sz(2)] i by simp
  define h1 where "h1 = h\<lparr>k_block_descs := (k_block_descs h)[i := (k_block_descs h ! i)\<lparr>free_list := bs\<rparr>],
                         arenas := (arenas h)(block2arena b := (arenas h (block2arena b))\<lparr>cnt := cnt (arenas h (block2arena b)) - 1\<rparr>)\<rparr>"
  have m: "sys_malloc sz m h = Inr (b, m', h1)"
    using sys_malloc_small_kernel [OF k sz i fl z] by (simp add: h1_def)
  have k': "cur_pgdir m' = None" using vzero_words_pmem [OF z] k by (metis mem_state.update_convs(7) mem_state.select_convs(4) mem_state.surjective)
  have ar1: "arenas h1 (block2arena b) = \<lparr>desc = Some (KDESC i), cnt = c - 1, large = False\<rparr>"
    using ar by (simp add: h1_def)
  have d1: "k_block_descs h1 ! i = (k_block_descs h ! i)\<lparr>free_list := bs\<rparr>" using di by (simp add: h1_def)
  have c1: "c - 1 + 1 \<noteq> blocks_per_arena (k_block_descs h1 ! i)" using c d1 by simp
  have "sys_free b m' h1 =
          Inr (m', h1\<lparr>k_block_descs := (k_block_descs h1)[i := (k_block_descs h1 ! i)\<lparr>free_list := list_append (free_list (k_block_descs h1 ! i)) b\<rparr>],
                      arenas := (arenas h1)(block2arena b := \<lparr>desc = Some (KDESC i), cnt = c - 1 + 1, large = False\<rparr>)\<rparr>)"
    using sys_free_small_kernel [OF k' p ar1 c1] .
  also have "\<dots> = Inr (m', h\<lparr>k_block_descs := (k_block_descs h)[i := (k_block_descs h ! i)\<lparr>free_list := bs @ [b]\<rparr>]\<rparr>)"
    using d1 ar by (simp add: h1_def list_append_def fun_upd_idem)
  finally show ?thesis using m di by blast
qed

theorem sys_malloc_free_roundtrip_witness:
  "\<exists>h1. sys_malloc 10 ex_kheap ex_heap =
          Inr (0xc010000c, ex_kheap\<lparr>pmem := (pmem ex_kheap)(0x20000c := 0, 0x200010 := 0, 0x200014 := 0, 0x200018 := 0)\<rparr>, h1) \<and>
        sys_free 0xc010000c (ex_kheap\<lparr>pmem := (pmem ex_kheap)(0x20000c := 0, 0x200010 := 0, 0x200014 := 0, 0x200018 := 0)\<rparr>) h1 =
          Inr (ex_kheap\<lparr>pmem := (pmem ex_kheap)(0x20000c := 0, 0x200010 := 0, 0x200014 := 0, 0x200018 := 0)\<rparr>,
               ex_heap\<lparr>k_block_descs := (k_block_descs ex_heap)[0 := \<lparr>block_size = 16, blocks_per_arena = 255,
                                                               free_list = [0xc010001c, 0xc010000c]\<rparr>]\<rparr>)"
proof -
  have z: "vzero_words ex_kheap 0xc010000c (unat (block_size (k_block_descs ex_heap ! 0)) div 4) =
             Inr (ex_kheap\<lparr>pmem := (pmem ex_kheap)(0x20000c := 0, 0x200010 := 0, 0x200014 := 0, 0x200018 := 0)\<rparr>)"
    by (simp add: ex_heap_def block_desc_init_eq vzero_words.simps vwrite_def mmu_translate_def
                  ex_kheap_def ex_pg_def ex_mem_def PDE_IDX_def PTE_IDX_def)
  have di: "0 = desc_index 10 (k_block_descs ex_heap) 0"
    by (simp add: ex_heap_def block_desc_init_eq desc_index.simps)
  show ?thesis
    using sys_malloc_free_roundtrip [OF _ _ _ _ _ di _ _ _ _ z, where bs = "[0xc010001c]" and c = 2]
    by (simp add: ex_heap_def block_desc_init_eq block2arena_def ex_kheap_def ex_pg_def ex_mem_def ex_kpool_def)
qed

text \<open>C40: \<open>sys_malloc\<close> rejects only sizes of at least the pool's size, but a large
  request of 15724533 bytes or more (so that the page count reaches 3840) fails the
  \<open>ASSERT\<close> of \<open>malloc_page\<close> and halts the machine instead of returning \<open>NULL\<close>.\<close>

theorem sys_malloc_large_halts:
  assumes k: "cur_pgdir m = None" and big: "15724533 \<le> unat sz" "unat sz < 4294963189"
    and fits: "sz < pool_size (kernel_pool m)"
  shows "sys_malloc sz m h = Inl (ASSERT_failed ''pg_cnt > 0 && pg_cnt < 3840'')"
proof -
  have "3840 \<le> unat ((4107 + sz) div 4096)" using unat_page_cnt [OF big(2)] big(1) by simp
  moreover have "1024 < sz" using big(1) by (simp add: word_less_nat_alt)
  moreover have "0 < sz" using big(1) by (simp add: word_less_nat_alt)
  ultimately show ?thesis using k fits by (simp add: sys_malloc_def heap_pf_def pool_of_def malloc_page_def)
qed

theorem sys_malloc_large_halts_witness:
  "sys_malloc 0xf00000 ex_bigmem ex_heap = Inl (ASSERT_failed ''pg_cnt > 0 && pg_cnt < 3840'')"
  using sys_malloc_large_halts [of ex_bigmem "0xf00000" ex_heap] by (simp add: ex_bigmem_def ex_mem_def ex_kpool_def)

lemma block_desc_init_geom:
  "d \<in> set block_desc_init \<Longrightarrow> 16 \<le> unat (block_size d) \<and> unat (blocks_per_arena d) = 4084 div unat (block_size d)"
  by (auto simp: block_desc_init_eq)

lemma arena_block_geometry:
  assumes al: "a AND 0xfff = 0" and d: "d \<in> set block_desc_init"
    and idx: "unat idx < unat (blocks_per_arena d)"
  shows "block2arena (arena2block a (block_size d) idx) = a \<and>
         unat (arena2block a (block_size d) idx - a) + unat (block_size d) \<le> 4096"
proof -
  have g: "0 < unat (block_size d)" "unat idx < 4084 div unat (block_size d)"
    using block_desc_init_geom [OF d] idx by simp_all
  note bia = block_in_arena [OF g]
  have off: "arena2block a (block_size d) idx - a = 12 + idx * block_size d"
    by (simp add: arena2block_def)
  have "(unat idx + 1) * unat (block_size d) = unat idx * unat (block_size d) + unat (block_size d)"
    by simp
  then have "unat (12 + idx * block_size d) < 4096" using bia g(1) by linarith
  then have "(12 + idx * block_size d) AND 0xfff = 12 + idx * block_size d" by (rule low12_self)
  then have "block2arena (arena2block a (block_size d) idx) = a"
    using aligned_plus [OF al] by (simp add: block2arena_def arena2block_def add.assoc)
  then show ?thesis using bia off by (simp add: algebra_simps)
qed

end
