(* ===== verification/Interrupt.thy ===== *)
theory Interrupt
  imports Prelude
begin

text \<open>
  Interrupt setup of \<open>src/kernel/interrupt.c\<close> and the programmable interval timer of
  \<open>src/device/timer.c\<close>. Port output \<open>outb\<close> (\<open>src/lib/kernel/io.h\<close>) appends to a
  log of \<open>(port, byte)\<close> writes in program order; the 8259A interrupt controllers and the
  8253 timer are modelled as consumers of that log (reference models of the hardware, not
  translations of code). The interrupt descriptor table \<open>idt\<close>, the handler table
  \<open>idt_table\<close> and the name table \<open>intr_name\<close> are lists of \<open>IDT_DESC_CNT\<close> entries
  in the record \<open>intr_tables\<close>; a handler pointer is its 32-bit address. The addresses
  and constants the code takes from outside \<open>src/\<close> (\<open>intr_entry_table\<close> and
  \<open>syscall_handler\<close> of \<open>kernel.S\<close>, \<open>SELECTOR_K_CODE\<close> and the gate attributes of
  \<open>global.h\<close>, the link address of \<open>idt\<close>) are the fields of \<open>boot_env\<close>.
\<close>

subsection \<open>Port output\<close>

type_synonym port_log = "(u16 \<times> u8) list"

definition outb :: "u16 \<Rightarrow> u8 \<Rightarrow> port_log \<Rightarrow> port_log" where
  "outb port data log = log @ [(port, data)]"

abbreviation PIC_M_CTRL :: u16 where "PIC_M_CTRL \<equiv> 0x20"
abbreviation PIC_M_DATA :: u16 where "PIC_M_DATA \<equiv> 0x21"
abbreviation PIC_S_CTRL :: u16 where "PIC_S_CTRL \<equiv> 0xa0"
abbreviation PIC_S_DATA :: u16 where "PIC_S_DATA \<equiv> 0xa1"

abbreviation IDT_DESC_CNT :: nat where "IDT_DESC_CNT \<equiv> 0x81"

text \<open>\<open>pic_init\<close>: the twelve writes in the order of the code.\<close>

definition pic_init :: "port_log \<Rightarrow> port_log" where
  "pic_init log = fold (\<lambda>(p, d). outb p d)
     [(PIC_M_CTRL, 0x11), (PIC_M_DATA, 0x20), (PIC_M_DATA, 0x04), (PIC_M_DATA, 0x01),
      (PIC_S_CTRL, 0x11), (PIC_S_DATA, 0x28), (PIC_S_DATA, 0x02), (PIC_S_DATA, 0x01),
      (PIC_M_DATA, 0xfc), (PIC_S_DATA, 0xff), (PIC_M_DATA, 0xf8), (PIC_S_DATA, 0xbf)] log"

subsection \<open>Gate descriptors and the tables\<close>

record gate_desc =
  func_offset_low_word :: u16
  selector :: u16
  dcout :: u8
  attribute :: u8
  func_offset_high_word :: u16

record boot_env =
  selector_k_code :: u16
  attr_dpl0 :: u8
  attr_dpl3 :: u8
  intr_entry_table :: "u32 list"
  syscall_handler :: u32
  general_handler :: u32
  idt_addr :: u32

record intr_tables =
  idt :: "gate_desc list"
  intr_name :: "string list"
  idt_table :: "u32 list"
  ports :: port_log
  idtr :: "64 word"

definition make_idt_desc :: "u16 \<Rightarrow> u8 \<Rightarrow> u32 \<Rightarrow> gate_desc" where
  "make_idt_desc sel attr function =
     \<lparr>func_offset_low_word = ucast (function AND 0x0000FFFF), selector = sel, dcout = 0,
      attribute = attr, func_offset_high_word = ucast (drop_bit 16 (function AND 0xFFFF0000))\<rparr>"

definition idt_desc_init :: "boot_env \<Rightarrow> intr_tables \<Rightarrow> intr_tables" where
  "idt_desc_init env s =
     (let lastindex = IDT_DESC_CNT - 1;
          descs = map (\<lambda>i. make_idt_desc (selector_k_code env) (attr_dpl0 env) (intr_entry_table env ! i))
                    [0..<IDT_DESC_CNT]
      in s\<lparr>idt := descs[lastindex := make_idt_desc (selector_k_code env) (attr_dpl3 env) (syscall_handler env)]\<rparr>)"

definition exception_init :: "boot_env \<Rightarrow> intr_tables \<Rightarrow> intr_tables" where
  "exception_init env s =
     s\<lparr>idt_table := replicate IDT_DESC_CNT (general_handler env),
       intr_name := (replicate IDT_DESC_CNT ''unknown'')
         [0 := ''#DE Divide Error'', 1 := ''#DB Debug Exception'', 2 := ''NMI Interrupt'',
          3 := ''#BP Breakpoint Exception'', 4 := ''#OF Overflow Exception'',
          5 := ''#BR BOUND Range Exceeded Exception'', 6 := ''#UD Invalid Opcode Exception'',
          7 := ''#NM Device Not Available Exception'', 8 := ''#DF Double Fault Exception'',
          9 := ''Coprocessor Segment Overrun'', 10 := ''#TS Invalid TSS Exception'',
          11 := ''#NP Segment Not Present'', 12 := ''#SS Stack Fault Exception'',
          13 := ''#GP General Protection Exception'', 14 := ''#PF Page-Fault Exception'',
          16 := ''#MF x87 FPU Floating-Point Error'', 17 := ''#AC Alignment Check Exception'',
          18 := ''#MC Machine-Check Exception'', 19 := ''#XF SIMD Floating-Point Exception'']\<rparr>"

text \<open>
  \<open>register_handler\<close> stores into \<open>idt_table[vector_no]\<close> with no bound check; a
  \<open>uint8_t\<close> vector beyond the table is a write outside the array, the value \<open>None\<close>.
\<close>

definition register_handler :: "u8 \<Rightarrow> u32 \<Rightarrow> intr_tables \<Rightarrow> intr_tables option" where
  "register_handler vector_no function s =
     (if unat vector_no < length (idt_table s)
      then Some (s\<lparr>idt_table := (idt_table s)[unat vector_no := function]\<rparr>)
      else None)"

text \<open>\<open>sizeof(idt)\<close>: \<open>IDT_DESC_CNT\<close> descriptors of eight bytes.\<close>

definition idt_operand :: "u32 \<Rightarrow> 64 word" where
  "idt_operand idt_base = of_nat (IDT_DESC_CNT * 8 - 1) OR push_bit 16 (ucast idt_base)"

definition idt_init :: "boot_env \<Rightarrow> intr_tables \<Rightarrow> intr_tables" where
  "idt_init env s =
     (let s1 = idt_desc_init env s;
          s2 = exception_init env s1;
          s3 = s2\<lparr>ports := pic_init (ports s2)\<rparr>
      in s3\<lparr>idtr := idt_operand (idt_addr env)\<rparr>)"

subsection \<open>The general handler\<close>

text \<open>Console operations of \<open>print.h\<close>, recorded in order.\<close>

datatype con_op = Set_cursor u32 | Put_char char | Put_str string | Put_int u32

datatype intr_outcome = Returned | Hung "con_op list"

function clear_loop :: "int \<Rightarrow> con_op list" where
  "clear_loop cursor_pos =
     (if cursor_pos < 320 then Put_char (CHR '' '') # clear_loop (cursor_pos + 1) else [])"
  by pat_completeness auto
termination by (relation "measure (\<lambda>p. nat (320 - p))") auto

declare clear_loop.simps [simp del]

abbreviation nl :: string where "nl \<equiv> [CHR 0x0A]"

text \<open>
  \<open>general_intr_handler\<close>: spurious IRQ7 and IRQ15 return at once; any other vector
  clears the top of the screen, prints the vector's name (and for a page fault the
  faulting address read from \<open>cr2\<close>) and spins forever (\<open>Hung\<close> with the output).
  Reading \<open>intr_name[vec_nr]\<close> past the table is \<open>None\<close>.
\<close>

definition general_intr_handler :: "string list \<Rightarrow> u32 \<Rightarrow> u8 \<Rightarrow> intr_outcome option" where
  "general_intr_handler names cr2 vec_nr =
     (if vec_nr = 0x27 \<or> vec_nr = 0x2f then Some Returned
      else if length names \<le> unat vec_nr then None
      else Some (Hung ([Set_cursor 0] @ clear_loop 0 @
        [Set_cursor 0, Put_str (''!!!!!!! excetion message begin !!!!!!!!'' @ nl),
         Set_cursor 88, Put_str (names ! unat vec_nr)] @
        (if vec_nr = 14 then [Put_str (nl @ ''page fault addr is ''), Put_int cr2] else []) @
        [Put_str (nl @ ''!!!!!!! excetion message end !!!!!!!!'' @ nl)])))"

subsection \<open>The interval timer\<close>

abbreviation PIT_COUNTROL_PORT :: u16 where "PIT_COUNTROL_PORT \<equiv> 0x43"

text \<open>
  \<open>frequency_set\<close>: the control word, then the low byte of the counter value, then
  \<open>(uint8_t)counter_value >> 8\<close>: the cast applies before the shift, so the byte shifted
  is the low byte, promoted to \<open>int\<close>.
\<close>

definition frequency_set :: "u8 \<Rightarrow> u8 \<Rightarrow> u8 \<Rightarrow> u8 \<Rightarrow> u16 \<Rightarrow> port_log \<Rightarrow> port_log" where
  "frequency_set counter_port counter_no rwl counter_mode counter_value log =
     outb (ucast counter_port) (ucast (drop_bit 8 (ucast (ucast counter_value :: u8) :: u32)))
       (outb (ucast counter_port) (ucast counter_value)
         (outb PIT_COUNTROL_PORT (push_bit 6 counter_no OR push_bit 4 rwl OR push_bit 1 counter_mode) log))"

abbreviation IRQ0_FREQUENCY :: nat where "IRQ0_FREQUENCY \<equiv> 100"
abbreviation INPUT_FREQUENCY :: nat where "INPUT_FREQUENCY \<equiv> 1193180"

definition COUNTER0_VALUE :: u16 where
  "COUNTER0_VALUE = of_nat (INPUT_FREQUENCY div IRQ0_FREQUENCY)"

text \<open>\<open>timer_init\<close> with the address of \<open>intr_timer_handler\<close>.\<close>

definition timer_init :: "u32 \<Rightarrow> intr_tables \<Rightarrow> intr_tables option" where
  "timer_init timer_handler s =
     register_handler 0x20 timer_handler (s\<lparr>ports := frequency_set 0x40 0 3 2 COUNTER0_VALUE (ports s)\<rparr>)"

subsection \<open>Reference models of the hardware\<close>

text \<open>
  How the processor reads a gate descriptor's target offset and the operand of
  \<open>lidt\<close> (limit in bits 0--15, base in bits 16--47).
\<close>

definition gate_offset :: "gate_desc \<Rightarrow> u32" where
  "gate_offset d = push_bit 16 (ucast (func_offset_high_word d)) OR ucast (func_offset_low_word d)"

definition idtr_limit :: "64 word \<Rightarrow> u16" where
  "idtr_limit op = ucast op"

definition idtr_base :: "64 word \<Rightarrow> u32" where
  "idtr_base op = ucast (drop_bit 16 op)"

text \<open>
  An 8259A: \<open>ICW1\<close> (a control write with bit 4 set) starts initialisation and clears the
  mask; the next data writes are \<open>ICW2\<close> (vector base), \<open>ICW3\<close> when cascaded (the
  lines with a slave on a master, the line number on a slave) and \<open>ICW4\<close> when \<open>ICW1\<close>
  asked for it; afterwards a data write sets the mask \<open>OCW1\<close>. Other control writes
  (\<open>EOI\<close>, \<open>OCW3\<close>) leave this state alone.
\<close>

record pic8259 =
  icw_next :: nat
  single :: bool
  need_icw4 :: bool
  vec_base :: u8
  cascade :: u8
  imr :: u8

definition pic_ctrl :: "u8 \<Rightarrow> pic8259 \<Rightarrow> pic8259" where
  "pic_ctrl d p =
     (if bit d 4 then p\<lparr>icw_next := 2, single := bit d 1, need_icw4 := bit d 0, imr := 0\<rparr> else p)"

definition pic_data :: "u8 \<Rightarrow> pic8259 \<Rightarrow> pic8259" where
  "pic_data d p =
     (if icw_next p = 2 then
        p\<lparr>vec_base := d AND 0xf8, icw_next := (if single p then (if need_icw4 p then 4 else 0) else 3)\<rparr>
      else if icw_next p = 3 then p\<lparr>cascade := d, icw_next := (if need_icw4 p then 4 else 0)\<rparr>
      else if icw_next p = 4 then p\<lparr>icw_next := 0\<rparr>
      else p\<lparr>imr := d\<rparr>)"

definition pic_out :: "pic8259 \<times> pic8259 \<Rightarrow> u16 \<times> u8 \<Rightarrow> pic8259 \<times> pic8259" where
  "pic_out ms w =
     (case ms of (m, s) \<Rightarrow> case w of (port, d) \<Rightarrow>
        if port = PIC_M_CTRL then (pic_ctrl d m, s)
        else if port = PIC_M_DATA then (pic_data d m, s)
        else if port = PIC_S_CTRL then (m, pic_ctrl d s)
        else if port = PIC_S_DATA then (m, pic_data d s)
        else (m, s))"

definition pic_run :: "port_log \<Rightarrow> pic8259 \<times> pic8259 \<Rightarrow> pic8259 \<times> pic8259" where
  "pic_run log ms = foldl pic_out ms log"

text \<open>
  The vector an interrupt request line \<open>irq\<close> (0--7 on the master, 8--15 on the slave)
  raises, if any: the line is unmasked, is not a cascade input, and for a slave line the
  master's cascade input of that slave is unmasked.
\<close>

definition pic_vector :: "pic8259 \<times> pic8259 \<Rightarrow> nat \<Rightarrow> u8 option" where
  "pic_vector ms irq =
     (case ms of (m, s) \<Rightarrow>
        if icw_next m \<noteq> 0 \<or> icw_next s \<noteq> 0 then None
        else if irq < 8 then
          (if bit (cascade m) irq \<or> bit (imr m) irq then None else Some (vec_base m + of_nat irq))
        else if irq < 16 then
          (if bit (imr s) (irq - 8) \<or> \<not> bit (cascade m) (unat (cascade s))
              \<or> bit (imr m) (unat (cascade s)) then None
           else Some (vec_base s + of_nat (irq - 8)))
        else None)"

text \<open>
  Counter 0 of an 8253/8254: a control word for counter 0 with a non-zero access field
  selects the access mode (1 low byte, 2 high byte, 3 low then high) and operating mode;
  data writes to port \<open>0x40\<close> load the reload value, where 0 stands for 65536.
\<close>

record pit_channel =
  access :: u8
  op_mode :: u8
  lsb_next :: bool
  lsb :: u8
  reload :: nat

definition pit_count :: "nat \<Rightarrow> nat" where
  "pit_count n = (if n = 0 then 65536 else n)"

definition pit_out :: "pit_channel \<Rightarrow> u16 \<times> u8 \<Rightarrow> pit_channel" where
  "pit_out c w =
     (case w of (port, d) \<Rightarrow>
        if port = PIT_COUNTROL_PORT \<and> drop_bit 6 d = 0 \<and> drop_bit 4 d AND 3 \<noteq> 0 then
          c\<lparr>access := drop_bit 4 d AND 3, op_mode := drop_bit 1 d AND 7, lsb_next := True\<rparr>
        else if port = 0x40 then
          (if access c = 3 then
             (if lsb_next c then c\<lparr>lsb := d, lsb_next := False\<rparr>
              else c\<lparr>reload := pit_count (unat d * 256 + unat (lsb c)), lsb_next := True\<rparr>)
           else if access c = 1 then c\<lparr>reload := pit_count (unat d)\<rparr>
           else if access c = 2 then c\<lparr>reload := pit_count (unat d * 256)\<rparr>
           else c)
        else c)"

definition pit_run :: "port_log \<Rightarrow> pit_channel \<Rightarrow> pit_channel" where
  "pit_run log c = foldl pit_out c log"

definition irq0_rate :: "pit_channel \<Rightarrow> nat" where
  "irq0_rate c = INPUT_FREQUENCY div reload c"

subsection \<open>Interrupt setup at boot\<close>

text \<open>
  The interrupt part of \<open>init_all\<close> (\<open>src/kernel/init.c\<close>): \<open>idt_init\<close>, then
  \<open>timer_init\<close>, and later \<open>keyboard_init\<close>, whose \<open>register_handler(0x21, ...)\<close>
  installs the keyboard handler (the initialisations in between touch neither the
  tables nor the ports).
\<close>

definition init_interrupts :: "boot_env \<Rightarrow> u32 \<Rightarrow> u32 \<Rightarrow> intr_tables \<Rightarrow> intr_tables option" where
  "init_interrupts env timer_handler keyboard_handler s =
     Option.bind (timer_init timer_handler (idt_init env s)) (register_handler 0x21 keyboard_handler)"

text \<open>The handler the kernel's common entry calls for an interrupt request line.\<close>

definition irq_handler :: "intr_tables \<Rightarrow> pic8259 \<times> pic8259 \<Rightarrow> nat \<Rightarrow> u32 option" where
  "irq_handler s ms irq = map_option (\<lambda>v. idt_table s ! unat v) (pic_vector ms irq)"

text \<open>A boot environment with the usual descriptor constants, and empty tables.\<close>

definition ex_boot_env :: boot_env where
  "ex_boot_env = \<lparr>selector_k_code = 0x08, attr_dpl0 = 0x8e, attr_dpl3 = 0xee,
     intr_entry_table = replicate IDT_DESC_CNT 0xc0001500, syscall_handler = 0xc0001600,
     general_handler = 0xc0001700, idt_addr = 0xc0009000\<rparr>"

definition ex_tables :: intr_tables where
  "ex_tables = \<lparr>idt = [], intr_name = [], idt_table = [], ports = [], idtr = 0\<rparr>"

definition ex_pit :: pit_channel where
  "ex_pit = \<lparr>access = 0, op_mode = 0, lsb_next = True, lsb = 0, reload = 65536\<rparr>"

definition ex_pic :: pic8259 where
  "ex_pic = \<lparr>icw_next = 0, single = False, need_icw4 = False, vec_base = 8, cascade = 0, imr = 0\<rparr>"

subsection \<open>Lemmas\<close>

lemma fold_outb [simp]: "fold (\<lambda>(p, d). outb p d) ws log = log @ ws"
  by (induction ws arbitrary: log) (auto simp: outb_def)

lemma pic_run_append [simp]: "pic_run (xs @ ys) ms = pic_run ys (pic_run xs ms)"
  by (simp add: pic_run_def)

lemma pit_run_append [simp]: "pit_run (xs @ ys) c = pit_run ys (pit_run xs c)"
  by (simp add: pit_run_def)

lemma pic_after_init:
  "pic_run (pic_init log) ms =
     (case pic_run log ms of (m, s) \<Rightarrow>
       (m\<lparr>icw_next := 0, single := False, need_icw4 := True, vec_base := 0x20, cascade := 0x04, imr := 0xf8\<rparr>,
        s\<lparr>icw_next := 0, single := False, need_icw4 := True, vec_base := 0x28, cascade := 0x02, imr := 0xbf\<rparr>))"
  unfolding pic_init_def fold_outb pic_run_append
  by (simp add: pic_run_def pic_out_def pic_ctrl_def pic_data_def split: prod.split)

lemma mask16_u32: "(0xFFFF :: u32) = mask 16" "(0xFFFF0000 :: u32) = NOT (mask 16)"
  by (simp_all add: mask_eq_exp_minus_1)

lemma gate_offset_make [simp]: "gate_offset (make_idt_desc sel attr f) = f"
  unfolding gate_offset_def make_idt_desc_def mask16_u32 by (simp, rule bit_word_eqI) (auto simp: bit_simps)

lemma make_idt_desc_fields [simp]:
  "selector (make_idt_desc sel attr f) = sel" "dcout (make_idt_desc sel attr f) = 0"
  "attribute (make_idt_desc sel attr f) = attr"
  by (simp_all add: make_idt_desc_def)

lemma idtr_idt_operand [simp]:
  "idtr_limit (idt_operand a) = 1031" "idtr_base (idt_operand a) = a"
  unfolding idtr_limit_def idtr_base_def idt_operand_def
  by (rule bit_word_eqI, auto simp: bit_simps)+

lemma low_byte_shift [simp]: "(ucast (drop_bit 8 (ucast (ucast (v :: u16) :: u8) :: u32)) :: u8) = 0"
  by (rule bit_word_eqI) (auto simp: bit_simps)

lemma unat_ucast_u16_u8: "unat (ucast (v :: u16) :: u8) = unat v mod 256"
  by (simp add: unsigned_ucast_eq take_bit_eq_mod)

lemma clear_loop_replicate: "p \<le> 320 \<Longrightarrow> clear_loop p = replicate (nat (320 - p)) (Put_char (CHR '' ''))"
proof (induction p rule: clear_loop.induct)
  case (1 p)
  show ?case
  proof (cases "p < 320")
    case True
    then have "nat (320 - p) = Suc (nat (320 - (p + 1)))" by simp
    with True 1 show ?thesis by (simp add: clear_loop.simps)
  next
    case False
    with 1 show ?thesis by (simp add: clear_loop.simps)
  qed
qed

lemma idt_init_tables [simp]:
  "length (idt (idt_init env s)) = IDT_DESC_CNT"
  "idt_table (idt_init env s) = replicate IDT_DESC_CNT (general_handler env)"
  "length (intr_name (idt_init env s)) = IDT_DESC_CNT"
  "ports (idt_init env s) = pic_init (ports s)"
  "idtr (idt_init env s) = idt_operand (idt_addr env)"
  by (simp_all add: idt_init_def idt_desc_init_def exception_init_def)

lemma idt_init_desc:
  "i < IDT_DESC_CNT \<Longrightarrow> idt (idt_init env s) ! i =
     make_idt_desc (selector_k_code env) (if i = IDT_DESC_CNT - 1 then attr_dpl3 env else attr_dpl0 env)
       (if i = IDT_DESC_CNT - 1 then syscall_handler env else intr_entry_table env ! i)"
  by (simp add: idt_init_def idt_desc_init_def exception_init_def nth_list_update)

lemma frequency_set_log:
  "frequency_set p n r m v log = log @ [(PIT_COUNTROL_PORT, push_bit 6 n OR push_bit 4 r OR push_bit 1 m),
     (ucast p, ucast v), (ucast p, ucast (drop_bit 8 (ucast (ucast v :: u8) :: u32)))]"
  by (simp add: frequency_set_def outb_def)

lemma pit_frequency_set:
  "pit_run (frequency_set 0x40 0 3 2 v log) c =
     (pit_run log c)\<lparr>access := 3, op_mode := 2, lsb_next := True, lsb := ucast v,
        reload := pit_count (unat v mod 256)\<rparr>"
  by (simp add: frequency_set_log pit_run_def pit_out_def unat_ucast_u16_u8)

lemma pic_vector_init_bits:
  "pic_vector (pic_run (pic_init log) ms) irq =
     (if irq < 8 then (if bit (0x04 :: u8) irq \<or> bit (0xf8 :: u8) irq then None else Some (0x20 + of_nat irq))
      else if irq < 16 then (if bit (0xbf :: u8) (irq - 8) then None else Some (0x28 + of_nat (irq - 8)))
      else None)"
proof -
  obtain m s where "pic_run log ms = (m, s)" by fastforce
  then show ?thesis by (simp add: pic_after_init pic_vector_def)
qed

lemma pic_vector_init:
  "pic_vector (pic_run (pic_init log) ms) irq =
     (if irq = 0 then Some 0x20 else if irq = 1 then Some 0x21 else if irq = 14 then Some 0x2e else None)"
proof (cases "irq < 16")
  case True
  then have "irq = 0 \<or> irq = 1 \<or> irq = 2 \<or> irq = 3 \<or> irq = 4 \<or> irq = 5 \<or> irq = 6
    \<or> irq = 7 \<or> irq = 8 \<or> irq = 9 \<or> irq = 10 \<or> irq = 11 \<or> irq = 12 \<or> irq = 13 \<or> irq = 14 \<or> irq = 15"
    by arith
  then show ?thesis
    unfolding pic_vector_init_bits by (elim disjE) simp_all
next
  case False
  then show ?thesis unfolding pic_vector_init_bits by simp
qed

text \<open>
  C5. \<open>idt_init\<close> fills all \<open>IDT_DESC_CNT\<close> gate descriptors: the gate of each
  vector targets its stub in \<open>intr_entry_table\<close> with the kernel code selector and the
  DPL 0 attribute, the last one (\<open>0x80\<close>) targets \<open>syscall_handler\<close> with DPL 3, and
  the operand loaded by \<open>lidt\<close> gives exactly the table's size and address.
\<close>
theorem idt_init_gates:
  assumes "i < IDT_DESC_CNT"
  shows "gate_offset (idt (idt_init env s) ! i) =
           (if i = IDT_DESC_CNT - 1 then syscall_handler env else intr_entry_table env ! i)
       \<and> selector (idt (idt_init env s) ! i) = selector_k_code env
       \<and> dcout (idt (idt_init env s) ! i) = 0
       \<and> attribute (idt (idt_init env s) ! i) = (if i = IDT_DESC_CNT - 1 then attr_dpl3 env else attr_dpl0 env)
       \<and> length (idt (idt_init env s)) = IDT_DESC_CNT
       \<and> idtr_limit (idtr (idt_init env s)) = of_nat (IDT_DESC_CNT * 8 - 1)
       \<and> idtr_base (idtr (idt_init env s)) = idt_addr env"
  using assms by (simp add: idt_init_desc)

text \<open>
  C16. \<open>frequency_set\<close> for counter 0 in lobyte/hibyte access and mode 2 loads the
  counter with the low byte of \<open>counter_value\<close> only: the second byte it sends,
  \<open>(uint8_t)counter_value >> 8\<close>, is always 0.
\<close>
theorem frequency_set_high_byte_lost:
  "reload (pit_run (frequency_set 0x40 0 3 2 v log) c) = pit_count (unat v mod 256)
   \<and> op_mode (pit_run (frequency_set 0x40 0 3 2 v log) c) = 2"
  by (simp add: pit_frequency_set)

text \<open>
  C23. After \<open>idt_init\<close>, \<open>register_handler\<close> installs a handler for each vector
  below \<open>0x81\<close>, changing only that entry of \<open>idt_table\<close>; for the vectors
  \<open>0x81\<close> to \<open>0xff\<close> its \<open>uint8_t\<close> parameter accepts, it writes past the table.
\<close>
theorem register_handler_after_init:
  "(register_handler v f (idt_init env s) = None \<longleftrightarrow> 0x81 \<le> v)
   \<and> (\<forall>s'. register_handler v f (idt_init env s) = Some s' \<longrightarrow>
        length (idt_table s') = IDT_DESC_CNT
      \<and> (\<forall>j<IDT_DESC_CNT. idt_table s' ! j = (if j = unat v then f else general_handler env)))"
  by (auto simp: register_handler_def word_le_nat_alt nth_list_update)

text \<open>
  C36. The general interrupt handler returns only for the spurious vectors \<open>0x27\<close>
  and \<open>0x2f\<close>; for any other vector of the table it blanks the first 320 screen
  cells, prints the vector's name and, exactly for a page fault, the address from
  \<open>cr2\<close>, and never returns.
\<close>
theorem general_intr_handler_report:
  assumes "vec < 0x81"
  shows "(general_intr_handler (intr_name (idt_init env s)) fault_addr vec = Some Returned
            \<longleftrightarrow> vec = 0x27 \<or> vec = 0x2f)
       \<and> (vec \<noteq> 0x27 \<and> vec \<noteq> 0x2f \<longrightarrow>
           (\<exists>out. general_intr_handler (intr_name (idt_init env s)) fault_addr vec = Some (Hung out)
              \<and> take 321 out = Set_cursor 0 # replicate 320 (Put_char (CHR '' ''))
              \<and> Put_str (intr_name (idt_init env s) ! unat vec) \<in> set out
              \<and> (Put_int fault_addr \<in> set out \<longleftrightarrow> vec = 14)))"
proof -
  have len: "unat vec < IDT_DESC_CNT" using assms by (simp add: word_less_nat_alt)
  have clr: "clear_loop 0 = replicate 320 (Put_char (CHR '' ''))" by (simp add: clear_loop_replicate)
  show ?thesis
    using len by (auto simp: general_intr_handler_def clr)
qed

text \<open>
  C4. After the interrupt initialisation of \<open>init_all\<close> (\<open>idt_init\<close>,
  \<open>timer_init\<close>, the registration in \<open>keyboard_init\<close>), exactly IRQ0, IRQ1 and IRQ14
  reach the processor: IRQ0 runs the timer handler, IRQ1 the keyboard handler, IRQ14 the
  general handler (the disk handler of \<open>ide_init\<close>, outside \<open>src/\<close>, is installed
  later), and every other line is masked; the timer raises IRQ0 at 7697 Hz, not
  at \<open>IRQ0_FREQUENCY\<close> = 100 Hz.
\<close>
theorem init_interrupts_delivery:
  "\<exists>s'. init_interrupts env th kh s = Some s'
     \<and> (\<forall>irq. irq_handler s' (pic_run (ports s') ms) irq =
          (if irq = 0 then Some th else if irq = 1 then Some kh
           else if irq = 14 then Some (general_handler env) else None))
     \<and> irq0_rate (pit_run (ports s') c) = 7697"
proof -
  let ?s1 = "(idt_init env s)\<lparr>ports := frequency_set 0x40 0 3 2 COUNTER0_VALUE (ports (idt_init env s))\<rparr>"
  let ?s' = "?s1\<lparr>idt_table := (idt_table ?s1)[32 := th, 33 := kh]\<rparr>"
  have run: "init_interrupts env th kh s = Some ?s'"
    by (simp add: init_interrupts_def timer_init_def register_handler_def)
  have pic: "pic_run (ports ?s') ms = pic_run (pic_init (ports s)) ms"
    by (simp add: frequency_set_log pic_run_def pic_out_def split: prod.split)
  have "unat COUNTER0_VALUE = 11931" by (simp add: COUNTER0_VALUE_def)
  then have pit: "reload (pit_run (ports ?s') c) = 155"
    by (simp add: pit_frequency_set pit_count_def)
  have "irq_handler ?s' (pic_run (ports ?s') ms) irq =
          (if irq = 0 then Some th else if irq = 1 then Some kh
           else if irq = 14 then Some (general_handler env) else None)" for irq
    by (simp only: pic pic_vector_init irq_handler_def) simp
  with run pit show ?thesis by (simp add: irq0_rate_def)
qed

subsection \<open>Witnesses\<close>

theorem idt_init_gates_witness:
  "(5 :: nat) < IDT_DESC_CNT \<and> gate_offset (idt (idt_init ex_boot_env ex_tables) ! 5) = 0xc0001500
   \<and> attribute (idt (idt_init ex_boot_env ex_tables) ! 128) = 0xee"
  using idt_init_gates [where i = 5 and env = ex_boot_env and s = ex_tables]
    idt_init_gates [where i = 128 and env = ex_boot_env and s = ex_tables]
  by (simp add: ex_boot_env_def)

theorem frequency_set_high_byte_lost_witness:
  "reload (pit_run (frequency_set 0x40 0 3 2 11931 []) ex_pit) = 155"
  using frequency_set_high_byte_lost [where v = 11931 and log = "[]" and c = ex_pit] by (simp add: pit_count_def)

theorem register_handler_after_init_witness:
  "register_handler 0x90 7 (idt_init ex_boot_env ex_tables) = None
   \<and> idt_table (the (register_handler 0x20 7 (idt_init ex_boot_env ex_tables))) ! 32 = 7"
  using register_handler_after_init [where v = "0x90" and f = 7 and env = ex_boot_env and s = ex_tables]
    register_handler_after_init [where v = "0x20" and f = 7 and env = ex_boot_env and s = ex_tables]
  by (cases "register_handler 0x20 7 (idt_init ex_boot_env ex_tables)") auto

theorem general_intr_handler_report_witness:
  "(14 :: u8) < 0x81 \<and> (\<exists>out. general_intr_handler (intr_name (idt_init ex_boot_env ex_tables)) 0xdead 14
      = Some (Hung out) \<and> Put_int 0xdead \<in> set out)"
  using general_intr_handler_report [where vec = 14 and env = ex_boot_env and s = ex_tables and fault_addr = "0xdead"] by auto

theorem init_interrupts_delivery_witness:
  "irq_handler (the (init_interrupts ex_boot_env 0xc0002000 0xc0003000 ex_tables))
     (pic_run (ports (the (init_interrupts ex_boot_env 0xc0002000 0xc0003000 ex_tables))) (ex_pic, ex_pic)) 1
   = Some 0xc0003000"
  using init_interrupts_delivery [where env = ex_boot_env and th = "0xc0002000" and kh = "0xc0003000" and s = ex_tables and ms = "(ex_pic, ex_pic)" and c = ex_pit]
  by auto

end
