(* ===== verification/Ps.thy ===== *)
theory Ps
  imports Stdio
begin

text \<open>
  The task listing \<open>sys_ps\<close> of \<open>src/thread/thread.c\<close> with its helpers
  \<open>pad_print\<close> and \<open>elem2thread_info\<close>, on the byte memory of \<open>Kstring\<close>. A task is
  read through the layout of \<open>struct task_struct\<close> (\<open>src/thread/thread.h\<close>):
  \<open>parent_pid\<close> at offset 4, \<open>pid\<close> at 6 (both \<open>int16_t\<close>), \<open>status\<close> at 8 (a
  4-byte enum), \<open>name[16]\<close> at 12 and \<open>elapsed_ticks\<close> at 32. String literals are
  addresses in read-only data (record \<open>ps_lits\<close>); what \<open>sys_write(stdout_no, ...)\<close>
  (in \<open>userprog/\<close>, not under \<open>src/\<close>) is given is returned as a byte list.
\<close>

abbreviation parent_pid_off :: u32 where "parent_pid_off \<equiv> 4"
abbreviation pid_off :: u32 where "pid_off \<equiv> 6"
abbreviation status_off :: u32 where "status_off \<equiv> 8"
abbreviation name_off :: u32 where "name_off \<equiv> 12"
abbreviation elapsed_ticks_off :: u32 where "elapsed_ticks_off \<equiv> 32"

text \<open>Little-endian loads: \<open>*(uint32_t* )p\<close>, and \<open>*(int16_t* )p\<close> promoted to \<open>int\<close>.\<close>

definition load_u32 :: "bytes \<Rightarrow> u32 \<Rightarrow> u32" where
  "load_u32 m a = ucast (m a) OR push_bit 8 (ucast (m (a + 1))) OR push_bit 16 (ucast (m (a + 2)))
     OR push_bit 24 (ucast (m (a + 3)))"

definition load_s16 :: "bytes \<Rightarrow> u32 \<Rightarrow> u32" where
  "load_s16 m a = scast (ucast (m a) OR push_bit 8 (ucast (m (a + 1))) :: 16 word)"

record ps_lits =
  lit_s :: u32
  lit_d :: u32
  lit_x :: u32
  lit_null :: u32
  lit_stat :: "u32 list"
  lit_nl :: u32
  lit_title :: u32

text \<open>Sequencing of steps that may halt (\<open>Inl\<close>) or not return (\<open>None\<close>).\<close>

definition bindE :: "(fatal + 'a) option \<Rightarrow> ('a \<Rightarrow> (fatal + 'b) option) \<Rightarrow> (fatal + 'b) option" where
  "bindE x f = Option.bind x (\<lambda>r. case r of Inl e \<Rightarrow> Some (Inl e) | Inr a \<Rightarrow> f a)"

text \<open>The padding loop of \<open>pad_print\<close>: \<open>out_pad_0idx\<close> is a \<open>uint8_t\<close>, compared with
  the \<open>int32_t\<close> \<open>buf_len\<close>.\<close>

partial_function (option) pad_fill :: "bytes \<Rightarrow> u32 \<Rightarrow> int \<Rightarrow> u8 \<Rightarrow> bytes option" where
  "pad_fill m buf buf_len out_pad_0idx =
     (if uint out_pad_0idx < buf_len
      then pad_fill (m(buf + ucast out_pad_0idx := 32)) buf buf_len (out_pad_0idx + 1)
      else Some m)"

text \<open>The \<open>switch (format)\<close> of \<open>pad_print\<close>: \<open>case 'd'\<close> has no \<open>break\<close> and falls
  through to \<open>case 'x'\<close>; the result of \<open>sprintf\<close> is truncated to \<open>uint8_t\<close>.\<close>

definition pad_switch :: "bytes \<Rightarrow> ps_lits \<Rightarrow> u32 \<Rightarrow> u32 \<Rightarrow> u8 \<Rightarrow> (fatal + u8 \<times> bytes) option" where
  "pad_switch m L buf ptr format =
     (let idx = map_option (map_sum id (\<lambda>(n, m1). (ucast n, m1))) in
      if format = 115 then idx (sprintf m buf (lit_s L) (\<lambda>_. ptr))
      else if format = 100 then
        bindE (sprintf m buf (lit_d L) (\<lambda>_. load_s16 m ptr)) (\<lambda>(_, m1).
          idx (sprintf m1 buf (lit_x L) (\<lambda>_. load_u32 m1 ptr)))
      else if format = 120 then idx (sprintf m buf (lit_x L) (\<lambda>_. load_u32 m ptr))
      else Some (Inr (0, m)))"

definition sys_write_out :: "bytes \<Rightarrow> u32 \<Rightarrow> nat \<Rightarrow> u8 list" where
  "sys_write_out m buf n = map (\<lambda>i. m (buf + of_nat i)) [0..<n]"

definition pad_print :: "bytes \<Rightarrow> ps_lits \<Rightarrow> u32 \<Rightarrow> int \<Rightarrow> u32 \<Rightarrow> u8 \<Rightarrow> (fatal + u8 list \<times> bytes) option" where
  "pad_print m L buf buf_len ptr format =
     (case memset m buf 0 (word_of_int buf_len) of
        Inl e \<Rightarrow> Some (Inl e)
      | Inr m1 \<Rightarrow> bindE (pad_switch m1 L buf ptr format) (\<lambda>(n, m2).
          map_option (\<lambda>m3. Inr (sys_write_out m3 buf (nat (buf_len - 1)), m3)) (pad_fill m2 buf buf_len n)))"

text \<open>One row of the listing for the task at \<open>pthread\<close>, with the local
  \<open>char out_pad[16] = {0}\<close> at the stack address \<open>out_pad\<close>.\<close>

definition elem2thread_info :: "bytes \<Rightarrow> ps_lits \<Rightarrow> u32 \<Rightarrow> u32 \<Rightarrow> (fatal + u8 list \<times> bytes) option" where
  "elem2thread_info m L out_pad pthread =
     bindE (pad_print (store m out_pad (replicate 16 0)) L out_pad 16 (pthread + pid_off) 100) (\<lambda>(o1, m1).
     bindE (if load_s16 m1 (pthread + parent_pid_off) = - 1 then pad_print m1 L out_pad 16 (lit_null L) 115
            else pad_print m1 L out_pad 16 (pthread + parent_pid_off) 100) (\<lambda>(o2, m2).
     bindE (let st = unat (load_u32 m2 (pthread + status_off)) in
            if st < 6 then pad_print m2 L out_pad 16 (lit_stat L ! st) 115 else Some (Inr ([], m2))) (\<lambda>(o3, m3).
     bindE (pad_print m3 L out_pad 16 (pthread + elapsed_ticks_off) 120) (\<lambda>(o4, m4).
     bindE (Some (memset m4 out_pad 0 16)) (\<lambda>m5.
     bindE (strlen m5 (pthread + name_off)) (\<lambda>len.
       if \<not> len < 17 then Some (Inl (ASSERT_failed ''strlen(pthread->name) < 17''))
       else bindE (Some (memcpy m5 out_pad (pthread + name_off) len)) (\<lambda>m6.
            bindE (strcat m6 out_pad (lit_nl L)) (\<lambda>(_, m7).
            bindE (strlen m7 out_pad) (\<lambda>n.
              Some (Inr (o1 @ o2 @ o3 @ o4 @ sys_write_out m7 out_pad (unat n), m7)))))))))))"

text \<open>\<open>list_traversal(&thread_all_list, elem2thread_info, 0)\<close>: the callback returns
  \<open>false\<close>, so every task of the list is visited, in list order.\<close>

fun ps_rows :: "bytes \<Rightarrow> ps_lits \<Rightarrow> u32 \<Rightarrow> u32 list \<Rightarrow> (fatal + u8 list \<times> bytes) option" where
  "ps_rows m L out_pad [] = Some (Inr ([], m))"
| "ps_rows m L out_pad (t # ts) =
     bindE (elem2thread_info m L out_pad t) (\<lambda>(o1, m1).
     bindE (ps_rows m1 L out_pad ts) (\<lambda>(o2, m2). Some (Inr (o1 @ o2, m2))))"

definition sys_ps :: "bytes \<Rightarrow> ps_lits \<Rightarrow> u32 \<Rightarrow> u32 list \<Rightarrow> (fatal + u8 list \<times> bytes) option" where
  "sys_ps m L out_pad all_list =
     bindE (strlen m (lit_title L)) (\<lambda>n.
     bindE (ps_rows m L out_pad all_list) (\<lambda>(rows, m1).
       Some (Inr (sys_write_out m (lit_title L) (unat n) @ rows, m1))))"

section \<open>Reference rendering and placement\<close>

text \<open>The characters \<open>itoa\<close> writes for a value in a base; a format string
  \<open>"%c"\<close> in memory; a block of \<open>k\<close> bytes that lies outside the 16-byte buffer.\<close>

definition num_chars :: "nat \<Rightarrow> u32 \<Rightarrow> u8 list" where
  "num_chars b v = map digit_char (digits b (unat v))"

definition fmt_at :: "bytes \<Rightarrow> u32 \<Rightarrow> u8 \<Rightarrow> bool" where
  "fmt_at m a c = (m a = 37 \<and> m (a + 1) = c \<and> m (a + 2) = 0)"

definition outside :: "u32 \<Rightarrow> u32 \<Rightarrow> nat \<Rightarrow> bool" where
  "outside buf a k = (\<forall>i<k. 16 \<le> unat (a + of_nat i - buf))"

text \<open>Example: the format literals and two tasks, a running one with pid 100 at
  \<open>0x2000\<close> and a ready one with pid 2 at \<open>0x2100\<close>.\<close>

definition ex_lits :: ps_lits where
  "ex_lits = \<lparr>lit_s = 0x100, lit_d = 0x104, lit_x = 0x108, lit_null = 0x10c,
     lit_stat = [0x120, 0x128, 0x130, 0x138, 0x140, 0x148], lit_nl = 0x110, lit_title = 0x150\<rparr>"

definition ex_ps_mem :: bytes where
  "ex_ps_mem = (\<lambda>_. 0)(0x100 := 37, 0x101 := 115, 0x104 := 37, 0x105 := 100, 0x108 := 37, 0x109 := 120,
     0x2006 := 100, 0x2106 := 2, 0x2108 := 1)"

section \<open>Lemmas\<close>

lemma store_eq:
  "length xs < 2 ^ 32 \<Longrightarrow> store m a xs x = (if unat (x - a) < length xs then xs ! unat (x - a) else m x)"
proof (induction xs arbitrary: m a)
  case Nil
  then show ?case by simp
next
  case (Cons y ys)
  then have l: "length ys < 2 ^ 32 - 1" by simp
  show ?case
  proof (cases "x = a")
    case True
    have "unat (a - (a + 1)) = 2 ^ 32 - 1" by (simp add: unsigned_minus_1_eq_mask mask_eq_exp_minus_1)
    then show ?thesis using True Cons l by simp
  next
    case False
    then have "unat (x - a) = Suc (unat (x - (a + 1)))" by (rule unat_diff_Suc)
    then show ?thesis using False Cons l by simp
  qed
qed

lemma unat_off: "i < 2 ^ 32 \<Longrightarrow> unat (b + of_nat i - b :: u32) = i"
  by (simp add: unat_of_nat_u32)

lemma digit_char_nz: "d < 16 \<Longrightarrow> digit_char d \<noteq> 0"
proof
  assume d: "d < 16" and z: "digit_char d = 0"
  have "unat (digit_char d) = 0" using z by simp
  then show False using unat_digit_char [OF d] by (simp split: if_splits)
qed

lemma digits_length_pow:
  assumes b: "2 \<le> b" and n: "n < b ^ k" and k: "1 \<le> k"
  shows "length (digits b n) \<le> k"
proof (cases "n = 0")
  case True
  then show ?thesis using b k by (simp add: digits.simps [of b 0])
next
  case False
  then have "b ^ (length (digits b n) - 1) < b ^ k"
    using digits_length [OF b, of n] n by linarith
  then have "length (digits b n) - 1 < k" using b by (simp add: power_less_imp_less_exp)
  then show ?thesis by simp
qed

lemma memset_16: "buf \<noteq> 0 \<Longrightarrow> memset m buf 0 16 = Inr (\<lambda>a. if unat (a - buf) < 16 then 0 else m a)"
  by (simp add: memset_def memset_loop_eq)

lemma vsprintf_loop_conv:
  fixes v :: u32 and base :: u8
  assumes f: "m f = 37" "m (f + 1) = c" "m (f + 2) = 0"
    and conv: "(c = 120 \<and> base = 16) \<or> (c = 100 \<and> base = 10 \<and> 0 \<le> sint v)"
    and sep: "\<forall>j < length (digits (unat base) (unat v)). f + 2 \<noteq> buf + of_nat j"
  shows "vsprintf_loop m buf f (m f) (\<lambda>_. v) 0 =
           Some (Inr (store m buf (map digit_char (digits (unat base) (unat v)))))"
proof -
  define cs where "cs = map digit_char (digits (unat base) (unat v))"
  have b: "2 \<le> unat base" "unat base \<le> 16" using conv by auto
  have it: "itoa v buf base m = Some (buf + of_nat (length cs), store m buf cs)"
    using itoa_digits [OF b] by (simp add: cs_def)
  have z: "store m buf cs (f + 2) = 0"
    using sep f(3) by (simp add: store_outside cs_def)
  have conv_eq: "vsprintf_conv m buf f (\<lambda>_. v) 0 =
                   Some (Inr (store m buf cs, buf + of_nat (length cs), f + 2, 0, 1))"
    using conv f(2) it z by (auto simp: vsprintf_conv_def Let_def add.assoc)
  have "vsprintf_loop (store m buf cs) (buf + of_nat (length cs)) (f + 2) 0 (\<lambda>_. v) 1 = Some (Inr (store m buf cs))"
    by (simp add: vsprintf_loop.simps [of _ _ "f + 2"])
  then show ?thesis
    using f(1) conv_eq by (subst vsprintf_loop.simps) (simp add: cs_def)
qed

lemma pad_fill_eq:
  assumes "unat n \<le> 16"
  shows "pad_fill m buf 16 n = Some (\<lambda>x. if unat n \<le> unat (x - buf) \<and> unat (x - buf) < 16 then 32 else m x)"
  using assms
proof (induction "16 - unat n" arbitrary: n m)
  case 0
  then have n: "unat n = 16" by simp
  then have "\<not> uint n < 16" using uint_nat [of n] by linarith
  then have e: "pad_fill m buf 16 n = Some m" by (simp add: pad_fill.simps [of m buf 16 n])
  have "(\<lambda>x. if unat n \<le> unat (x - buf) \<and> unat (x - buf) < 16 then 32 else m x) = m"
    using n by (intro ext) auto
  then show ?case using e by simp
next
  case (Suc k)
  then have lt: "unat n < 16" by simp
  then have u: "uint n < 16" using uint_nat [of n] by linarith
  have n1: "unat (n + 1) = unat n + 1" using lt by (simp add: unat_word_ariths)
  have ih: "pad_fill (m(buf + ucast n := 32)) buf 16 (n + 1) =
              Some (\<lambda>x. if unat (n + 1) \<le> unat (x - buf) \<and> unat (x - buf) < 16 then 32 else (m(buf + ucast n := 32)) x)"
    using Suc.hyps(1) [of "n + 1" "m(buf + ucast n := 32)"] Suc.hyps(2) n1 lt by simp
  have un: "unat (ucast n :: u32) = unat n" by (simp add: unat_ucast_u8_u32)
  have "(\<lambda>x. if unat (n + 1) \<le> unat (x - buf) \<and> unat (x - buf) < 16 then 32 else (m(buf + ucast n := 32)) x)
        = (\<lambda>x. if unat n \<le> unat (x - buf) \<and> unat (x - buf) < 16 then 32 else m x)"
  proof
    fix x
    show "(if unat (n + 1) \<le> unat (x - buf) \<and> unat (x - buf) < 16 then 32 else (m(buf + ucast n := 32)) x)
          = (if unat n \<le> unat (x - buf) \<and> unat (x - buf) < 16 then 32 else m x)"
    proof (cases "x = buf + ucast n")
      case True
      then show ?thesis using un lt n1 by simp
    next
      case False
      have "x - buf \<noteq> ucast n"
      proof
        assume "x - buf = ucast n"
        then have "x = buf + ucast n" by (simp add: diff_eq_eq add.commute)
        with False show False by simp
      qed
      then have d: "unat (x - buf) \<noteq> unat n" using un by (metis word_unat_eq_iff)
      have "(unat n + 1 \<le> unat (x - buf)) = (unat n \<le> unat (x - buf))" using d by linarith
      then show ?thesis using False n1 by (simp only: fun_upd_other) simp
    qed
  qed
  then show ?case using ih u by (simp add: pad_fill.simps [of m buf 16 n])
qed

lemma sint_nonneg_small:
  assumes "unat (v :: u32) < 32768"
  shows "0 \<le> sint v"
proof -
  have "unat v div 2 ^ 31 = 0" using assms by simp
  then have "\<not> bit (unat v) 31" by (simp add: bit_iff_odd)
  then have "\<not> bit v 31" by (simp add: bit_unsigned_iff)
  then show ?thesis using bit_last_iff [of v] by simp
qed

lemma sys_write_out_fill:
  assumes cs: "length cs \<le> 15" "\<forall>i<length cs. m2 (buf + of_nat i) = cs ! i"
  shows "sys_write_out (\<lambda>x. if length cs \<le> unat (x - buf) \<and> unat (x - buf) < 16 then 32 else m2 x) buf 15
           = cs @ replicate (15 - length cs) 32"
proof (rule nth_equalityI)
  show "length (sys_write_out (\<lambda>x. if length cs \<le> unat (x - buf) \<and> unat (x - buf) < 16 then 32 else m2 x) buf 15)
        = length (cs @ replicate (15 - length cs) 32)"
    using cs(1) by (simp add: sys_write_out_def)
next
  fix i
  assume "i < length (sys_write_out (\<lambda>x. if length cs \<le> unat (x - buf) \<and> unat (x - buf) < 16 then 32 else m2 x) buf 15)"
  then have i: "i < 15" by (simp add: sys_write_out_def)
  then have u: "unat (buf + of_nat i - buf) = i" by (simp add: unat_off)
  show "sys_write_out (\<lambda>x. if length cs \<le> unat (x - buf) \<and> unat (x - buf) < 16 then 32 else m2 x) buf 15 ! i
        = (cs @ replicate (15 - length cs) 32) ! i"
    using i u cs(2) by (simp add: sys_write_out_def nth_append)
qed

lemma pad_print_content:
  assumes buf: "buf \<noteq> 0"
    and sw: "pad_switch (\<lambda>a. if unat (a - buf) < 16 then 0 else m a) L buf ptr format
               = Some (Inr (of_nat (length cs), m2))"
    and cs: "length cs \<le> 15" "\<forall>i<length cs. m2 (buf + of_nat i) = cs ! i"
  shows "\<exists>m3. pad_print m L buf 16 ptr format = Some (Inr (cs @ replicate (15 - length cs) 32, m3))"
proof -
  have n: "unat (of_nat (length cs) :: u8) = length cs" using cs(1) by (simp add: unat_of_nat)
  have fill: "pad_fill m2 buf 16 (of_nat (length cs)) =
                Some (\<lambda>x. if length cs \<le> unat (x - buf) \<and> unat (x - buf) < 16 then 32 else m2 x)"
    using pad_fill_eq [of "of_nat (length cs)" m2 buf] n cs(1) by simp
  have "nat (16 - 1) = (15 :: nat)" by simp
  then show ?thesis
    using buf sw fill sys_write_out_fill [OF cs]
    by (simp add: pad_print_def memset_16 bindE_def)
qed

lemma sprintf_digits:
  fixes v :: u32 and base :: u8
  assumes f: "m f = 37" "m (f + 1) = c" "m (f + 2) = 0"
    and conv: "(c = 120 \<and> base = 16) \<or> (c = 100 \<and> base = 10 \<and> 0 \<le> sint v)"
    and sep: "\<forall>j < length (digits (unat base) (unat v)). f + 2 \<noteq> buf + of_nat j"
    and buf: "buf \<noteq> 0"
    and nz: "\<forall>i<k. store m buf (map digit_char (digits (unat base) (unat v))) (buf + of_nat i) \<noteq> 0"
    and z: "store m buf (map digit_char (digits (unat base) (unat v))) (buf + of_nat k) = 0"
  shows "sprintf m buf f (\<lambda>_. v) = Some (Inr (of_nat k, store m buf (map digit_char (digits (unat base) (unat v)))))"
proof -
  have "strlen_loop (store m buf (map digit_char (digits (unat base) (unat v)))) buf = Some (buf + of_nat k + 1)"
    using strlen_loop_first_nul nz z by blast
  then show ?thesis
    using vsprintf_loop_conv [OF f conv sep] buf by (simp add: sprintf_def vsprintf_def strlen_def)
qed

lemma outside_read:
  "outside buf a k \<Longrightarrow> i < k \<Longrightarrow> (if unat (a + of_nat i - buf) < 16 then 0 else m (a + of_nat i)) = m (a + of_nat i)"
  by (auto simp: outside_def)

lemma outside_ne:
  assumes "outside buf a k" "i < k" "j < 16"
  shows "a + of_nat i \<noteq> buf + of_nat j"
proof
  assume "a + of_nat i = buf + of_nat j"
  then have "unat (a + of_nat i - buf) = j" using assms(3) by (simp add: unat_off)
  then show False using assms by (auto simp: outside_def)
qed

lemma num_chars_len: "2 \<le> b \<Longrightarrow> unat v < b ^ k \<Longrightarrow> 1 \<le> k \<Longrightarrow> length (num_chars b v) \<le> k"
  by (simp add: num_chars_def digits_length_pow)

lemma num_chars_nz: "2 \<le> b \<Longrightarrow> b \<le> 16 \<Longrightarrow> i < length (num_chars b v) \<Longrightarrow> num_chars b v ! i \<noteq> 0"
proof -
  assume b: "2 \<le> b" "b \<le> 16" and i: "i < length (num_chars b v)"
  then have "digits b (unat v) ! i \<in> set (digits b (unat v))" by (simp add: num_chars_def)
  then have "digits b (unat v) ! i < 16" using digits_less [OF b(1)] b(2) by fastforce
  then show ?thesis using i by (simp add: num_chars_def digit_char_nz)
qed

lemma hex_len: "length (num_chars 16 v) \<le> 8"
  by (rule num_chars_len) simp_all

lemma dec_len: "unat v < 32768 \<Longrightarrow> length (num_chars 10 v) \<le> 5"
  by (rule num_chars_len) simp_all

lemma load_u32_cong:
  "(\<forall>i<4. m' (p + of_nat i) = m (p + of_nat i)) \<Longrightarrow> load_u32 m' p = load_u32 m p"
proof -
  assume a: "\<forall>i<4. m' (p + of_nat i) = m (p + of_nat i)"
  have "m' p = m p" "m' (p + 1) = m (p + 1)" "m' (p + 2) = m (p + 2)" "m' (p + 3) = m (p + 3)"
    using a [rule_format, of 0] a [rule_format, of 1] a [rule_format, of 2] a [rule_format, of 3] by simp_all
  then show ?thesis by (simp add: load_u32_def)
qed

lemma load_s16_cong:
  "(\<forall>i<2. m' (p + of_nat i) = m (p + of_nat i)) \<Longrightarrow> load_s16 m' p = load_s16 m p"
proof -
  assume a: "\<forall>i<2. m' (p + of_nat i) = m (p + of_nat i)"
  have "m' p = m p" "m' (p + 1) = m (p + 1)"
    using a [rule_format, of 0] a [rule_format, of 1] by simp_all
  then show ?thesis by (simp add: load_s16_def)
qed

lemma ucast_of_nat_small: "k < 2 ^ 32 \<Longrightarrow> (ucast (of_nat k :: u32) :: u8) = of_nat k"
  by (simp add: unsigned_of_nat take_bit_nat_eq_self)

lemma outside_3:
  assumes "outside buf f 3"
  shows "16 \<le> unat (f - buf)" "16 \<le> unat (f + 1 - buf)" "16 \<le> unat (f + 2 - buf)"
  using assms [unfolded outside_def, rule_format, of 0] assms [unfolded outside_def, rule_format, of 1]
    assms [unfolded outside_def, rule_format, of 2]
  by simp_all

lemma fmt_at_cleared:
  assumes "fmt_at m f c" "outside buf f 3"
  shows "fmt_at (\<lambda>a. if unat (a - buf) < 16 then 0 else m a) f c"
  using assms(1) outside_3 [OF assms(2)] by (simp add: fmt_at_def)

lemma sprintf_fmt:
  fixes base :: u8
  assumes buf: "buf \<noteq> 0" and f: "fmt_at mm f c" "outside buf f 3"
    and conv: "(c = 120 \<and> base = 16) \<or> (c = 100 \<and> base = 10 \<and> unat v < 32768)"
    and len: "length (num_chars (unat base) v) < 16"
    and nz: "\<forall>i<k. store mm buf (num_chars (unat base) v) (buf + of_nat i) \<noteq> 0"
    and z: "store mm buf (num_chars (unat base) v) (buf + of_nat k) = 0"
  shows "sprintf mm buf f (\<lambda>_. v) = Some (Inr (of_nat k, store mm buf (num_chars (unat base) v)))"
proof -
  have sep: "\<forall>j < length (digits (unat base) (unat v)). f + 2 \<noteq> buf + of_nat j"
  proof (intro allI impI)
    fix j
    assume "j < length (digits (unat base) (unat v))"
    then have "j < 16" using len by (simp add: num_chars_def)
    then have "f + of_nat 2 \<noteq> buf + of_nat j" using outside_ne [OF f(2), of 2 j] by simp
    then show "f + 2 \<noteq> buf + of_nat j" by simp
  qed
  have conv': "(c = 120 \<and> base = 16) \<or> (c = 100 \<and> base = 10 \<and> 0 \<le> sint v)"
    using conv sint_nonneg_small [of v] by auto
  have f1: "mm f = 37" "mm (f + 1) = c" "mm (f + 2) = 0" using f(1) by (simp_all add: fmt_at_def)
  show ?thesis
    using sprintf_digits [OF f1 conv' sep buf] nz z by (simp only: num_chars_def)
qed

lemma store_buf_read:
  assumes "length cs < 16" "i < 16"
  shows "store mm buf cs (buf + of_nat i) = (if i < length cs then cs ! i else mm (buf + of_nat i))"
  using assms store_eq [of cs mm buf "buf + of_nat i"] by (simp add: unat_off)

lemma cleared_read:
  fixes buf :: u32
  shows "i < 16 \<Longrightarrow> (\<lambda>a. if unat (a - buf) < 16 then 0 else m a) (buf + of_nat i) = 0"
  by (simp add: unat_off)

lemma load_u32_cleared:
  assumes "outside buf p 4"
  shows "load_u32 (\<lambda>a. if unat (a - buf) < 16 then 0 else m a) p = load_u32 m p"
  using assms by (intro load_u32_cong) (auto simp: outside_def)

lemma load_s16_cleared:
  assumes "outside buf p 4"
  shows "load_s16 (\<lambda>a. if unat (a - buf) < 16 then 0 else m a) p = load_s16 m p"
proof (intro load_s16_cong allI impI)
  fix i :: nat
  assume "i < 2"
  then have "16 \<le> unat (p + of_nat i - buf)" using assms by (simp add: outside_def)
  then show "(if unat (p + of_nat i - buf) < 16 then 0 else m (p + of_nat i)) = m (p + of_nat i)" by simp
qed

lemma store_outside_buf:
  assumes "outside buf p k" "length cs \<le> 16" "i < k"
  shows "store mm buf cs (p + of_nat i) = mm (p + of_nat i)"
proof -
  have "\<forall>j<length cs. p + of_nat i \<noteq> buf + of_nat j"
    using outside_ne [OF assms(1) assms(3)] assms(2) by auto
  then show ?thesis by (rule store_outside)
qed

lemma fmt_at_store:
  assumes "fmt_at mm f c" "outside buf f 3" "length cs \<le> 16"
  shows "fmt_at (store mm buf cs) f c"
proof -
  have "store mm buf cs (f + of_nat i) = mm (f + of_nat i)" if "i < 3" for i
    using store_outside_buf [OF assms(2) assms(3) that] .
  from this [of 0] this [of 1] this [of 2] show ?thesis using assms(1) by (simp add: fmt_at_def)
qed

lemma load_u32_store:
  assumes "outside buf p 4" "length cs \<le> 16"
  shows "load_u32 (store mm buf cs) p = load_u32 mm p"
  using store_outside_buf [OF assms] by (intro load_u32_cong) simp

lemma overwrite_read:
  assumes "length a < 16" "length b < 16" "i < length (b @ drop (length b) a)"
  shows "store (store mm buf a) buf b (buf + of_nat i) = (b @ drop (length b) a) ! i"
proof -
  have i: "i < 16" using assms by auto
  show ?thesis
    using assms store_buf_read [OF assms(2) i, of "store mm buf a" buf] store_buf_read [OF assms(1) i, of mm buf]
    by (auto simp: nth_append)
qed

lemma outside_3_iff: "outside buf a 3 = (16 \<le> unat (a - buf) \<and> 16 \<le> unat (a + 1 - buf) \<and> 16 \<le> unat (a + 2 - buf))"
proof -
  have "(\<forall>i<3. P i) = (P 0 \<and> P 1 \<and> P (2::nat))" for P by (auto simp: less_Suc_eq numeral_3_eq_3 numeral_2_eq_2)
  then show ?thesis by (simp add: outside_def)
qed

lemma outside_4_iff: "outside buf a 4 = (16 \<le> unat (a - buf) \<and> 16 \<le> unat (a + 1 - buf) \<and> 16 \<le> unat (a + 2 - buf) \<and> 16 \<le> unat (a + 3 - buf))"
proof -
  have "(\<forall>i<4. P i) = (P 0 \<and> P 1 \<and> P 2 \<and> P (3::nat))" for P by (auto simp: less_Suc_eq eval_nat_numeral)
  then show ?thesis by (simp add: outside_def)
qed

section \<open>Properties of \<open>pad_print\<close>\<close>

text \<open>
  C27. \<open>pad_print\<close> with format \<open>'x'\<close> clears its 16-byte buffer, prints the 32-bit
  word at \<open>ptr\<close> in upper-case hexadecimal and pads it with spaces: \<open>sys_write\<close> is
  given the digits followed by spaces, 15 bytes in all.
\<close>

theorem pad_print_hex:
  assumes buf: "buf \<noteq> 0" and fx: "fmt_at m (lit_x L) 120" "outside buf (lit_x L) 3"
    and p: "outside buf ptr 4"
  shows "\<exists>m'. pad_print m L buf 16 ptr 120 =
           Some (Inr (num_chars 16 (load_u32 m ptr) @ replicate (15 - length (num_chars 16 (load_u32 m ptr))) 32, m'))"
proof -
  define m0 where "m0 = (\<lambda>a. if unat (a - buf) < 16 then 0 else m a)"
  define hx where "hx = num_chars 16 (load_u32 m ptr)"
  have hl: "length hx \<le> 8" by (simp add: hx_def hex_len)
  have f0: "fmt_at m0 (lit_x L) 120" using fmt_at_cleared [OF fx] by (simp add: m0_def)
  have ld: "load_u32 m0 ptr = load_u32 m ptr" using load_u32_cleared [OF p] by (simp add: m0_def)
  have cs: "\<forall>i<length hx. store m0 buf hx (buf + of_nat i) = hx ! i"
    using hl by (simp add: store_buf_read)
  have nz: "\<forall>i<length hx. store m0 buf hx (buf + of_nat i) \<noteq> 0"
    using cs num_chars_nz [of 16 _ "load_u32 m ptr"] by (simp add: hx_def)
  have z: "store m0 buf hx (buf + of_nat (length hx)) = 0"
    using hl store_buf_read [of hx "length hx" m0 buf] cleared_read [of "length hx" buf m] by (simp add: m0_def)
  have sp: "sprintf m0 buf (lit_x L) (\<lambda>_. load_u32 m ptr) = Some (Inr (of_nat (length hx), store m0 buf hx))"
    using sprintf_fmt [OF buf f0 fx(2), of "16 :: u8" "load_u32 m ptr" "length hx"] hl nz z
    by (simp add: hx_def)
  have sw: "pad_switch m0 L buf ptr 120 = Some (Inr (of_nat (length hx), store m0 buf hx))"
    using sp ld hl by (simp add: pad_switch_def ucast_of_nat_small)
  show ?thesis
    using pad_print_content [OF buf _ _ cs, of m L ptr 120] sw hl by (simp add: m0_def hx_def)
qed

text \<open>
  C30. \<open>case 'd'\<close> of \<open>pad_print\<close> has no \<open>break\<close>: after printing the \<open>int16_t\<close>
  at \<open>ptr\<close> in decimal it falls through to \<open>case 'x'\<close>, which prints the 32-bit word
  at \<open>ptr\<close> in hexadecimal over it, with no terminating NUL. The column shows the hex
  digits followed by whatever decimal digits they did not cover, so a running task with
  pid 100 is listed as \<open>640\<close>.
\<close>

theorem pad_print_dec_falls_through:
  assumes buf: "buf \<noteq> 0"
    and fd: "fmt_at m (lit_d L) 100" "outside buf (lit_d L) 3"
    and fx: "fmt_at m (lit_x L) 120" "outside buf (lit_x L) 3"
    and p: "outside buf ptr 4" and pos: "unat (load_s16 m ptr) < 32768"
  shows "\<exists>m'. pad_print m L buf 16 ptr 100 =
           Some (Inr (num_chars 16 (load_u32 m ptr) @ drop (length (num_chars 16 (load_u32 m ptr))) (num_chars 10 (load_s16 m ptr))
                      @ replicate (15 - length (num_chars 16 (load_u32 m ptr) @
                                                drop (length (num_chars 16 (load_u32 m ptr))) (num_chars 10 (load_s16 m ptr)))) 32, m'))"
proof -
  define m0 where "m0 = (\<lambda>a. if unat (a - buf) < 16 then 0 else m a)"
  define dd where "dd = num_chars 10 (load_s16 m ptr)"
  define hx where "hx = num_chars 16 (load_u32 m ptr)"
  define cs where "cs = hx @ drop (length hx) dd"
  define m1 where "m1 = store m0 buf dd"
  define m2 where "m2 = store m1 buf hx"
  have dl: "length dd \<le> 5" using dec_len [OF pos] by (simp add: dd_def)
  have hl: "length hx \<le> 8" by (simp add: hx_def hex_len)
  have cl: "length cs \<le> 8" using dl hl by (simp add: cs_def)
  have ld16: "load_s16 m0 ptr = load_s16 m ptr" using load_s16_cleared [OF p] by (simp add: m0_def)
  have ld0: "load_u32 m0 ptr = load_u32 m ptr" using load_u32_cleared [OF p] by (simp add: m0_def)
  have ld1: "load_u32 m1 ptr = load_u32 m ptr" using load_u32_store [OF p, of dd m0] dl ld0 by (simp add: m1_def)
  have fd0: "fmt_at m0 (lit_d L) 100" using fmt_at_cleared [OF fd] by (simp add: m0_def)
  have fx1: "fmt_at m1 (lit_x L) 120"
    using fmt_at_store [OF fmt_at_cleared [OF fx] fx(2), of dd] dl by (simp add: m0_def m1_def)
  have dcs: "\<forall>i<length dd. m1 (buf + of_nat i) = dd ! i" using dl by (simp add: m1_def store_buf_read)
  have dnz: "\<forall>i<length dd. m1 (buf + of_nat i) \<noteq> 0"
    using dcs num_chars_nz [of 10 _ "load_s16 m ptr"] by (simp add: dd_def)
  have dz: "m1 (buf + of_nat (length dd)) = 0"
    using dl store_buf_read [of dd "length dd" m0 buf] cleared_read [of "length dd" buf m] by (simp add: m0_def m1_def)
  have sp1: "sprintf m0 buf (lit_d L) (\<lambda>_. load_s16 m0 ptr) = Some (Inr (of_nat (length dd), m1))"
    using sprintf_fmt [OF buf fd0 fd(2), of "10 :: u8" "load_s16 m ptr" "length dd"] dl dnz dz pos ld16
    by (simp add: dd_def m1_def)
  have ccs: "\<forall>i<length cs. m2 (buf + of_nat i) = cs ! i"
    using overwrite_read [of dd hx _ m0 buf] dl hl by (simp add: m2_def m1_def cs_def)
  have cnz: "\<forall>i<length cs. m2 (buf + of_nat i) \<noteq> 0"
  proof (intro allI impI)
    fix i
    assume i: "i < length cs"
    show "m2 (buf + of_nat i) \<noteq> 0"
    proof (cases "i < length hx")
      case True
      then show ?thesis using ccs i num_chars_nz [of 16 i "load_u32 m ptr"] by (simp add: cs_def hx_def nth_append)
    next
      case False
      then have "i < length dd" using i by (simp add: cs_def)
      then show ?thesis using ccs i False num_chars_nz [of 10 i "load_s16 m ptr"] by (simp add: cs_def dd_def nth_append)
    qed
  qed
  have cz: "m2 (buf + of_nat (length cs)) = 0"
  proof -
    have "length cs < 16" using cl by simp
    then have "m2 (buf + of_nat (length cs)) = m1 (buf + of_nat (length cs))"
      using hl store_buf_read [of hx "length cs" m1 buf] by (simp add: m2_def cs_def)
    also have "\<dots> = m0 (buf + of_nat (length cs))"
    proof -
      have "length dd \<le> length cs" by (simp add: cs_def)
      then show ?thesis using dl cl store_buf_read [of dd "length cs" m0 buf] by (simp add: m1_def)
    qed
    also have "\<dots> = 0" using cl cleared_read [of "length cs" buf m] by (simp add: m0_def)
    finally show ?thesis .
  qed
  have sp2: "sprintf m1 buf (lit_x L) (\<lambda>_. load_u32 m1 ptr) = Some (Inr (of_nat (length cs), m2))"
    using sprintf_fmt [OF buf fx1 fx(2), of "16 :: u8" "load_u32 m ptr" "length cs"] hl cl cnz cz ld1
    by (simp add: hx_def m2_def)
  have sw: "pad_switch m0 L buf ptr 100 = Some (Inr (of_nat (length cs), m2))"
    using sp1 sp2 ld16 cl by (simp add: pad_switch_def bindE_def ucast_of_nat_small)
  show ?thesis
    using pad_print_content [OF buf _ _ ccs, of m L ptr 100] sw cl by (simp add: m0_def cs_def hx_def dd_def)
qed

section \<open>Witnesses\<close>

theorem pad_print_hex_witness:
  "\<exists>m'. pad_print ex_ps_mem ex_lits 0x3000 16 0x2106 120 = Some (Inr ([49, 48, 48, 48, 50] @ replicate 10 32, m'))"
proof -
  have "load_u32 ex_ps_mem 0x2106 = 0x10002" by (simp add: load_u32_def ex_ps_mem_def)
  moreover have "num_chars 16 0x10002 = [49, 48, 48, 48, 50]" by (simp add: num_chars_def digits.simps digit_char_def)
  ultimately show ?thesis
    using pad_print_hex [where m = ex_ps_mem and L = ex_lits and buf = "0x3000" and ptr = "0x2106"]
    by (simp add: ex_lits_def fmt_at_def ex_ps_mem_def outside_3_iff outside_4_iff)
qed

theorem pad_print_dec_falls_through_witness:
  "\<exists>m'. pad_print ex_ps_mem ex_lits 0x3000 16 0x2006 100 = Some (Inr ([54, 52, 48] @ replicate 12 32, m'))"
proof -
  have "load_u32 ex_ps_mem 0x2006 = 100" by (simp add: load_u32_def ex_ps_mem_def)
  moreover have "load_s16 ex_ps_mem 0x2006 = 100" by (simp add: load_s16_def ex_ps_mem_def)
  moreover have "num_chars 16 100 = [54, 52]" by (simp add: num_chars_def digits.simps digit_char_def)
  moreover have "num_chars 10 100 = [49, 48, 48]" by (simp add: num_chars_def digits.simps digit_char_def)
  ultimately show ?thesis
    using pad_print_dec_falls_through [where m = ex_ps_mem and L = ex_lits and buf = "0x3000" and ptr = "0x2006"]
    by (simp add: ex_lits_def fmt_at_def ex_ps_mem_def outside_3_iff outside_4_iff)
qed

end
