(* ===== verification/Spec2Isabelle.thy ===== *)
theory Spec2Isabelle
  imports Keyboard Stdio Heap Interrupt Ps
begin

text \<open>
  \<^bold>\<open>A verification model of the RogOS kernel core.\<close>

  RogOS is a single-CPU 32-bit x86 teaching kernel. This development models its memory
  management, its concurrency core, its interrupt set-up, the keyboard path, the string
  library, formatted output and the task listing:
  \<^item> the bitmap (\<open>src/lib/kernel/bitmap.c\<close>), the allocation primitive under every pool;
  \<^item> the physical page pools, the virtual address pools, the two-level page tables, the
    page allocator and the heap of seven size classes (\<open>src/kernel/memory.c\<close>);
  \<^item> task control blocks, the round-robin scheduler and the interrupt flag
    (\<open>src/thread/thread.c\<close>, \<open>src/kernel/interrupt.c\<close>) with the timer handler
    (\<open>src/device/timer.c\<close>);
  \<^item> semaphores and the recursive lock (\<open>src/thread/sync.c\<close>), the bounded
    producer/consumer queue built on them (\<open>src/device/ioqueue.c\<close>) and the keyboard
    driver that fills it from its interrupt handler (\<open>src/device/keyboard.c\<close>);
  \<^item> the memory and string functions (\<open>src/lib/string.c\<close>) and \<open>itoa\<close>,
    \<open>vsprintf\<close>, \<open>sprintf\<close>, \<open>printf\<close> and \<open>printk\<close> built on them (\<open>src/lib/stdio.c\<close>,
    \<open>src/lib/kernel/stdio_kernel.c\<close>);
  \<^item> the interrupt descriptor table, the exception names, \<open>register_handler\<close>, the
    8259A programming and the general handler (\<open>src/kernel/interrupt.c\<close>), and the
    timer programming of \<open>frequency_set\<close> and \<open>timer_init\<close>.
  The pools call the bitmap; the page allocator calls the pools and the page tables; the
  heap calls the page allocator; the page allocator and the heap choose the kernel or the
  user pool by the running task's page directory. The scheduler, the semaphores and the
  I/O queue share the ready queue and the tasks' states; the keyboard handler writes into
  the I/O queue and wakes the task waiting in it. \<open>idt_init\<close>, \<open>timer_init\<close> and
  \<open>keyboard_init\<close> route IRQ0 and IRQ1 through the interrupt controllers to the timer
  and keyboard handlers.

  \<^bold>\<open>Conventions.\<close> Every C function is a HOL function of the same name on an explicit
  state, returning the updated state. A failed \<open>ASSERT\<close> or a \<open>PANIC\<close> halts the
  machine: the model returns it as \<open>Inl\<close> of the type \<open>fatal\<close> (theory \<open>Prelude\<close>),
  so every such check of the source is a branch of the model. A \<open>NULL\<close> result is
  \<open>None\<close> or the address 0, as the code tests it. Unsigned 8-, 16- and 32-bit values
  whose width matters are words (\<open>u8\<close>, \<open>u16\<close>, \<open>u32\<close>) with their wrap-around;
  the signed \<open>int8_t\<close> and \<open>int32_t\<close> of the string functions and the I/O queue are
  read with \<open>sint\<close> and \<open>smod\<close>. Memory the code addresses through pointers is a
  function from addresses to values (\<open>pmem\<close> for words behind the MMU, \<open>bytes\<close> for
  the string functions). Lists of the kernel list library (not under \<open>src/\<close>) are HOL
  lists, modelled from the specification.

  \<^bold>\<open>Loops, fuel and bounds.\<close> Every counted loop is a \<open>function\<close> with a measure
  (the bytes or bits left, the blocks of an arena, the pages of a request), so it
  terminates by construction. The loops of \<open>strcpy\<close>, \<open>strlen\<close>, \<open>strcmp\<close>,
  \<open>strchr\<close>, \<open>strrchr\<close> and \<open>strchrs\<close> stop only at a NUL byte and are
  \<open>partial_function (option)\<close>: \<open>None\<close> is a call that never returns, and C37 proves
  that \<open>strlen\<close> returns exactly when the memory holds a NUL byte. \<open>itoa\<close> (which
  recurses on \<open>value / base\<close>) and the format loop of \<open>vsprintf\<close> are
  \<open>partial_function (option)\<close> as well; C29 and C6 prove that they return. Port output
  is a log of \<open>(port, byte)\<close> writes in program order, read by reference models of the
  8259A controllers and the 8253 timer (not code of the repository). Interrupt-driven
  behaviour is a sequence of steps: \<open>timer_run n\<close> applies \<open>n\<close> timer interrupts, and
  C25/C26 give the \<open>n\<close> that ends a time slice or brings a ready task to the CPU;
  \<open>kbd_run\<close> applies the keyboard handler to a list of scan codes. Indices the code keeps
  far below \<open>2^31\<close> are natural numbers, with the hypothesis that keeps them there stated
  where a theorem needs it (\<open>bitmap_wf\<close>, \<open>ioq_wf\<close>).

  \<^bold>\<open>Theories and results\<close> (claims C1--C40 of the manifest).
  \<^item> \<open>Prelude\<close>: machine types, \<open>fatal\<close>, unsigned subtraction, list and bit lemmas.
  \<^item> \<open>Bitmap\<close>: \<open>struct bitmap\<close> (the \<open>bits\<close> field is the memory the pointer reaches,
    so reads past \<open>btmp_bytes_len\<close> are modelled), \<open>bitmap_scan\<close> with its three loops,
    \<open>bitmap_set\<close>, \<open>bitmap_scan_test\<close>, \<open>bitmap_init\<close>. \<open>bitmap_scan\<close> equals a
    reference first-fit search (C1) and returns clear runs (C2), and its search range
    includes the bit after the bitmap, so a run may end past it; a full bitmap halts (C1);
    \<open>bitmap_set\<close> accepts only 0 and 1 and changes exactly one bit (C3).
  \<^item> \<open>Pool\<close>: \<open>struct pool\<close>, \<open>struct virtual_addr\<close>, the memory state,
    \<open>mem_pool_init\<close>, \<open>palloc\<close>, \<open>pfree\<close>, \<open>vaddr_get\<close>, \<open>vaddr_remove\<close>: round
    trips (C7, C10), first fit (C8), exhaustion halts (C9), well-formed pools (C11) and the
    16-bit page count: for every memory size the pools manage the free pages modulo 65536,
    fewer than are free from 258 MiB on (C13).
  \<^item> \<open>Paging\<close>: \<open>PDE_IDX\<close>, \<open>PTE_IDX\<close>, \<open>pde_ptr\<close>, \<open>pte_ptr\<close> through a
    self-mapped directory and an MMU translation function, \<open>addr_v2p\<close>,
    \<open>page_table_pte_remove\<close>; \<open>page_table_add\<close> maps in both
    branches (C15), rejects double mapping, and map/unmap/map (C18).
  \<^item> \<open>Alloc\<close>: \<open>malloc_page\<close>, \<open>mfree_page\<close>, \<open>get_kernel_pages\<close>,
    \<open>get_user_pages\<close>, \<open>get_a_page\<close>, \<open>get_a_page_without_opvaddrbitmap\<close>: one
    kernel page allocated and freed
    (C19); whenever \<open>malloc_page\<close> fails, \<open>get_user_pages\<close> still clears the
    frame mapped at address 0 (C20); the first page of a pool cannot be installed (C21).
  \<^item> \<open>Heap\<close>: \<open>block_desc_init\<close>, \<open>arena2block\<close>, \<open>block2arena\<close>, \<open>sys_malloc\<close>,
    \<open>sys_free\<close> with the arena fill and release loops. Descriptor arrays and arena headers
    are kept beside the memory state; a free list is the list of its blocks' addresses.
    Smallest fitting class and malloc/free round trip (C31); a large request of 15 MiB or
    more halts on the page allocator's bound instead of returning \<open>NULL\<close> (C40).
  \<^item> \<open>Sched\<close>: \<open>struct task_struct\<close>, the scheduler state, \<open>thread_init\<close>,
    \<open>thread_start\<close>, \<open>schedule\<close>, \<open>thread_block\<close>, \<open>thread_unblock\<close>,
    \<open>thread_yield\<close>, \<open>allocate_pid\<close>, the interrupt flag and the timer handler; the
    step relation \<open>sched_step\<close> and its invariant (C22), time slices (C25),
    round-robin liveness (C26), \<open>thread_unblock\<close> and \<open>thread_start\<close>. \<open>switch_to\<close> (assembly) is the change of the running task.
  \<^item> \<open>Sync\<close>: semaphores and locks; \<open>sema_down\<close> is split at its suspension point.
    Blocking and FIFO wake-up (C32, C33), the woken waiter can be overtaken (C34), lock
    round trips (C35) and reentrancy.
  \<^item> \<open>Ioqueue\<close>: the 64-byte ring with its abstraction \<open>ioq_contents\<close>; \<open>putchar\<close>
    appends and \<open>getchar\<close> removes the oldest byte (C38, C39).
  \<^item> \<open>Keyboard\<close>: the driver state, \<open>keymap\<close>, \<open>intr_keyboard_handler\<close> and
    \<open>keyboard_init\<close>. A keyboard interrupt never blocks or halts (C12), letters follow
    Shift and Caps Lock (C14), and the Ctrl shortcuts are lost under Caps Lock (C17).
  \<^item> \<open>Kstring\<close>: \<open>memset\<close>, \<open>memcpy\<close>, \<open>memcmp\<close>, \<open>strcpy\<close>, \<open>strlen\<close>,
    \<open>strcmp\<close>, \<open>strchr\<close>, \<open>strrchr\<close>, \<open>strcat\<close>, \<open>strchrs\<close> on a byte memory.
    \<open>strcmp\<close> returns -1, 0 or 1 (C24), \<open>strchr\<close> never finds a byte of 128 or more
    (C28), \<open>strlen\<close> terminates exactly on NUL-terminated memory (C37).
  \<^item> \<open>Stdio\<close>: \<open>itoa\<close>, the conversion switch \<open>vsprintf_conv\<close> and the format
    loop \<open>vsprintf_loop\<close>, \<open>vsprintf\<close>, \<open>sprintf\<close> and the buffer part of
    \<open>printf\<close>; the variadic arguments are the stack words \<open>va_arg\<close> reads. \<open>itoa\<close>
    writes the digits of its value in any base from 2 to 16, at most 32 of them, and
    reading them back gives the value (C29); \<open>vsprintf\<close> writes no terminating NUL, so
    its result counts the bytes already in the buffer up to the first NUL (C6).
  \<^item> \<open>Interrupt\<close>: \<open>struct gate_desc\<close>, the tables \<open>idt\<close>, \<open>intr_name\<close> and
    \<open>idt_table\<close> (record \<open>intr_tables\<close>), \<open>make_idt_desc\<close>,
    \<open>idt_desc_init\<close>, \<open>exception_init\<close>, \<open>register_handler\<close>, \<open>pic_init\<close>,
    \<open>idt_init\<close>, \<open>general_intr_handler\<close> (console output as a list of operations,
    its final spin as \<open>Hung\<close>), \<open>outb\<close>, \<open>frequency_set\<close>, \<open>timer_init\<close> and
    \<open>init_interrupts\<close>, the interrupt part of \<open>init_all\<close>. The addresses and
    constants defined outside \<open>src/\<close> (\<open>kernel.S\<close>, \<open>global.h\<close>) are parameters
    (\<open>boot_env\<close>). Only IRQ0, IRQ1 and IRQ14 are delivered, to the timer, keyboard and
    general handlers, and the timer runs at 7697 Hz instead of 100 Hz (C4); the gates
    target their entry stubs and \<open>lidt\<close> covers the table (C5); \<open>frequency_set\<close>
    drops the high byte of the counter (C16); \<open>register_handler\<close> writes past the
    table for vectors from \<open>0x81\<close> (C23); the general handler returns only for the
    spurious vectors (C36).
  \<^item> \<open>Ps\<close>: the task listing \<open>sys_ps\<close> of \<open>thread.c\<close> with \<open>pad_print\<close> (its
    \<open>switch\<close> as \<open>pad_switch\<close>, its \<open>uint8_t\<close> padding loop as the partial function
    \<open>pad_fill\<close>) and \<open>elem2thread_info\<close>, on the byte memory, reading a task through
    the \<open>struct task_struct\<close> layout of \<open>thread.h\<close> (\<open>load_u32\<close>,
    \<open>load_s16\<close>); string literals are addresses of read-only data (\<open>ps_lits\<close>) and the
    output is the bytes given to \<open>sys_write\<close>. A hexadecimal column is the digits padded
    with spaces (C27); \<open>case 'd'\<close> falls through to \<open>case 'x'\<close>, so a pid column
    shows the hex of a 32-bit read over the decimal digits (C30).

  \<^bold>\<open>Not modelled.\<close> Port input and the TSS (\<open>inb\<close>, \<open>insw\<close>,
  \<open>outsw\<close>, \<open>tss.h\<close>: inline assembly); reading \<open>EFLAGS\<close> and \<open>cr2\<close> and
  \<open>lidt\<close> itself, which are the fields and arguments of the model; the console output
  of \<open>put_str\<close> outside the general handler; the \<open>write\<close> system call that ends
  \<open>printf\<close> and the console behind \<open>printk\<close> (not under \<open>src/\<close>);
  \<open>ticks_to_sleep\<close> and \<open>mtime_sleep\<close>, which busy-wait on the tick counter; the
  file system and disk declarations (\<open>src/fs\<close>, \<open>ide.h\<close>: declarations with no
  code); the rest of \<open>init_all\<close> and \<open>main.c\<close> (initialisers modelled in their
  components or outside \<open>src/\<close>, and a program write through the file system); and
  the context switch \<open>switch_to\<close>, an assembly routine outside \<open>src/\<close>.
\<close>

end
